theory Spec2Isabelle
  imports Complex_Main
begin

section \<open>Python values and the operations the audio module uses on them\<close>

text \<open>
  The audio module (\<^verbatim>\<open>vk_api/audio.py\<close>) works on JSON decoded by the HTTP layer. An
  audio record is a positional array; the positions the module reads hold JSON scalars,
  which are modelled by \<open>pyval\<close> (floats and nested containers are not part of the
  model). Every exception the module can raise is a value of \<open>py_error\<close>, and a
  computation that may raise returns \<open>py_error + 'a\<close> with \<open>Inl\<close> for the exception.
\<close>

datatype py_error =
  IndexError | KeyError | TypeError | AttributeError | ValueError | AccessDenied | DecodeError

datatype pyval = PNone | PBool bool | PInt int | PStr string

type_synonym audio = "pyval list"

type_synonym full_id = "string \<times> string \<times> string \<times> string"

text \<open>Sequencing of computations that may raise: the first exception propagates.\<close>

definition ebind :: "py_error + 'a \<Rightarrow> ('a \<Rightarrow> py_error + 'b) \<Rightarrow> py_error + 'b" where
  "ebind m f = (case m of Inl e \<Rightarrow> Inl e | Inr x \<Rightarrow> f x)"

text \<open>\<^verbatim>\<open>xs[i]\<close> for a list and a non-negative literal index.\<close>

definition py_index :: "'a list \<Rightarrow> nat \<Rightarrow> py_error + 'a" where
  "py_index xs i = (if i < length xs then Inr (xs ! i) else Inl IndexError)"

text \<open>\<^verbatim>\<open>bool(v)\<close>: Python truthiness of a scalar.\<close>

fun truthy :: "pyval \<Rightarrow> bool" where
  "truthy PNone = False"
| "truthy (PBool b) = b"
| "truthy (PInt i) = (i \<noteq> 0)"
| "truthy (PStr s) = (s \<noteq> [])"

text \<open>\<^verbatim>\<open>str(v)\<close>: decimal digits for an integer, the string itself for a string.\<close>

definition digit_char :: "nat \<Rightarrow> char" where
  "digit_char d = ''0123456789'' ! d"

fun nat_digits :: "nat \<Rightarrow> string" where
  "nat_digits n =
     (if n < 10 then [digit_char n] else nat_digits (n div 10) @ [digit_char (n mod 10)])"

declare nat_digits.simps [simp del]

definition int_str :: "int \<Rightarrow> string" where
  "int_str i = (if i < 0 then CHR ''-'' # nat_digits (nat (- i)) else nat_digits (nat i))"

fun py_str :: "pyval \<Rightarrow> string" where
  "py_str PNone = ''None''"
| "py_str (PBool b) = (if b then ''True'' else ''False'')"
| "py_str (PInt i) = int_str i"
| "py_str (PStr s) = s"

text \<open>\<^verbatim>\<open>s.split(c)\<close> for a one-character separator: never empty, keeps empty tokens.\<close>

fun split_on :: "char \<Rightarrow> string \<Rightarrow> string list" where
  "split_on c [] = [[]]"
| "split_on c (x # xs) =
     (if x = c then [] # split_on c xs
      else (case split_on c xs of
              [] \<Rightarrow> [[x]]
            | w # ws \<Rightarrow> (x # w) # ws))"

text \<open>\<^verbatim>\<open>sep.join(parts)\<close>.\<close>

fun join :: "string \<Rightarrow> string list \<Rightarrow> string" where
  "join sep [] = []"
| "join sep [p] = p"
| "join sep (p # q # ps) = p @ sep @ join sep (q # ps)"

text \<open>\<^verbatim>\<open>needle in haystack\<close> for two strings.\<close>

fun starts_with :: "string \<Rightarrow> string \<Rightarrow> bool" where
  "starts_with [] s = True"
| "starts_with (p # ps) [] = False"
| "starts_with (p # ps) (x # xs) = (p = x \<and> starts_with ps xs)"

fun contains :: "string \<Rightarrow> string \<Rightarrow> bool" where
  "contains needle [] = (needle = [])"
| "contains needle (x # xs) = (starts_with needle (x # xs) \<or> contains needle xs)"

section \<open>The positional layout of an audio record\<close>

text \<open>The entries of \<^verbatim>\<open>AUDIO_TUPLE\<close> that the module reads.\<close>

definition AT_ID :: nat where "AT_ID = 0"
definition AT_OWNER_ID :: nat where "AT_OWNER_ID = 1"
definition AT_URL :: nat where "AT_URL = 2"
definition AT_TITLE :: nat where "AT_TITLE = 3"
definition AT_PERFORMER :: nat where "AT_PERFORMER = 4"
definition AT_DURATION :: nat where "AT_DURATION = 5"
definition AT_CONTEXT :: nat where "AT_CONTEXT = 11"
definition AT_HASHES :: nat where "AT_HASHES = 13"
definition AT_COVER_URL :: nat where "AT_COVER_URL = 14"

lemmas AT_defs =
  AT_ID_def AT_OWNER_ID_def AT_URL_def AT_TITLE_def AT_PERFORMER_def AT_DURATION_def
  AT_CONTEXT_def AT_HASHES_def AT_COVER_URL_def

section \<open>Identity extraction: \<^verbatim>\<open>scrap_ids\<close> and \<^verbatim>\<open>scrap_ids_from_html\<close>\<close>

text \<open>\<^verbatim>\<open>all(full_id)\<close> on a 4-tuple of strings: every component is non-empty.\<close>

definition all_truthy :: "full_id \<Rightarrow> bool" where
  "all_truthy f = (case f of (a, b, c, d) \<Rightarrow> a \<noteq> [] \<and> b \<noteq> [] \<and> c \<noteq> [] \<and> d \<noteq> [])"

text \<open>
  The body of the loops of \<^verbatim>\<open>scrap_ids\<close> (audio.py:647-654) and
  \<^verbatim>\<open>scrap_ids_from_html\<close> (audio.py:690-698): \<open>Inr None\<close> when the record is
  dropped, \<open>Inr (Some id)\<close> when its identity is appended. \<^verbatim>\<open>.split\<close> exists on strings
  only; the tuple is built left to right.
\<close>

definition full_id_of :: "audio \<Rightarrow> py_error + full_id option" where
  "full_id_of track =
     ebind (py_index track AT_HASHES) (\<lambda>h.
       case h of
         PStr hs \<Rightarrow>
           (let audio_hashes = split_on CHR ''/'' hs in
            ebind (py_index track AT_OWNER_ID) (\<lambda>owner.
            ebind (py_index track AT_ID) (\<lambda>ident.
            ebind (py_index audio_hashes 2) (\<lambda>h2.
            ebind (py_index audio_hashes 5) (\<lambda>h5.
              let full_id = (py_str owner, py_str ident, h2, h5)
              in Inr (if all_truthy full_id then Some full_id else None))))))
       | _ \<Rightarrow> Inl AttributeError)"

fun scrap_ids_loop :: "full_id list \<Rightarrow> audio list \<Rightarrow> py_error + full_id list" where
  "scrap_ids_loop ids [] = Inr ids"
| "scrap_ids_loop ids (track # rest) =
     (case full_id_of track of
        Inl e \<Rightarrow> Inl e
      | Inr None \<Rightarrow> scrap_ids_loop ids rest
      | Inr (Some full_id) \<Rightarrow> scrap_ids_loop (ids @ [full_id]) rest)"

definition scrap_ids :: "audio list \<Rightarrow> py_error + full_id list" where
  "scrap_ids audio_data = scrap_ids_loop [] audio_data"

text \<open>
  \<^verbatim>\<open>scrap_ids_from_html\<close> parses the page with BeautifulSoup and each item's
  \<^verbatim>\<open>data-audio\<close> attribute with \<^verbatim>\<open>json.loads\<close>; both are external libraries. The page
  is represented by what they deliver: whether the root element was found, and the
  \<^verbatim>\<open>audio_item\<close> nodes under it (outside playlist snippets) in document order, each
  with its class list and its decoded \<^verbatim>\<open>data-audio\<close> array.
\<close>

record audio_item =
  item_class :: "string list"
  item_data_audio :: audio

record html_page =
  root_el :: bool
  audio_items :: "audio_item list"

fun scrap_html_loop :: "full_id list \<Rightarrow> audio_item list \<Rightarrow> py_error + full_id list" where
  "scrap_html_loop ids [] = Inr ids"
| "scrap_html_loop ids (item # rest) =
     (if ''audio_item_disabled'' \<in> set (item_class item) then scrap_html_loop ids rest
      else (case full_id_of (item_data_audio item) of
              Inl e \<Rightarrow> Inl e
            | Inr None \<Rightarrow> scrap_html_loop ids rest
            | Inr (Some full_id) \<Rightarrow> scrap_html_loop (ids @ [full_id]) rest))"

definition scrap_ids_from_html :: "html_page \<Rightarrow> py_error + full_id list" where
  "scrap_ids_from_html html =
     (if \<not> root_el html then Inl ValueError else scrap_html_loop [] (audio_items html))"


text \<open>
  Vocabulary for stating properties of identity extraction. \<open>hashes_of\<close> is the
  \<^verbatim>\<open>HASHES\<close> field of a record when the record has one and it is a string;
  \<open>hash_tokens\<close> are its slash-delimited tokens. \<open>spec_identity\<close> is the 4-tuple the
  specification describes: \<^verbatim>\<open>(str(owner_id), str(id), hash_token_2, hash_token_5)\<close>.
\<close>

definition hashes_of :: "audio \<Rightarrow> string option" where
  "hashes_of track =
     (case py_index track AT_HASHES of Inr (PStr hs) \<Rightarrow> Some hs | _ \<Rightarrow> None)"

definition hash_tokens :: "audio \<Rightarrow> string list" where
  "hash_tokens track =
     (case hashes_of track of Some hs \<Rightarrow> split_on CHR ''/'' hs | None \<Rightarrow> [])"

definition spec_identity :: "audio \<Rightarrow> full_id" where
  "spec_identity track =
     (py_str (track ! AT_OWNER_ID), py_str (track ! AT_ID),
      hash_tokens track ! 2, hash_tokens track ! 5)"

definition enabled_audios :: "html_page \<Rightarrow> audio list" where
  "enabled_audios html =
     map item_data_audio
       (filter (\<lambda>item. ''audio_item_disabled'' \<notin> set (item_class item)) (audio_items html))"

text \<open>Concrete records used in the examples below: 14 fields, \<^verbatim>\<open>HASHES\<close> last.\<close>

definition record_with :: "pyval \<Rightarrow> pyval \<Rightarrow> string \<Rightarrow> audio" where
  "record_with ident owner hs =
     [ident, owner, PStr ''https://host/a.mp3'', PStr ''Title'', PStr ''Artist'', PInt 180,
      PInt 0, PNone, PStr [], PInt 0, PInt 0, PStr ''search_global_audios'', PStr [],
      PStr hs]"


section \<open>URL normalisation: \<^verbatim>\<open>RE_M3U8_TO_MP3\<close>\<close>

text \<open>
  The pattern is \<^verbatim>\<open>/[0-9a-f]+(/audios)?/([0-9a-f]+)/index.m3u8\<close> (audio.py:24) and the
  replacement template is \<^verbatim>\<open>\1/\2.mp3\<close> (audio.py:736). The matcher below follows
  Python's backtracking search on this pattern. A run \<^verbatim>\<open>[0-9a-f]+\<close> is followed by
  \<^verbatim>\<open>/\<close> in the pattern, so only the longest run can lead to a match; the optional group
  is tried first with \<^verbatim>\<open>/audios\<close> and then without; the dot matches every character
  but a newline; a group that took no part in the match is replaced by the empty string.
\<close>

definition is_hex :: "char \<Rightarrow> bool" where
  "is_hex c = (c \<in> set ''0123456789abcdef'')"

text \<open>\<^verbatim>\<open>/([0-9a-f]+)/index.m3u8\<close> at the start of a string: group 2 and the text after
  the match.\<close>

definition match_tail :: "string \<Rightarrow> (string \<times> string) option" where
  "match_tail s =
     (case s of
        [] \<Rightarrow> None
      | c # s1 \<Rightarrow>
          if c \<noteq> CHR ''/'' then None
          else
            let g2 = takeWhile is_hex s1; r = dropWhile is_hex s1 in
            if g2 = [] \<or> \<not> starts_with ''/index'' r then None
            else (case drop 6 r of
                    [] \<Rightarrow> None
                  | d # r2 \<Rightarrow>
                      if d = CHR 0x0A \<or> \<not> starts_with ''m3u8'' r2 then None
                      else Some (g2, drop 4 r2)))"

text \<open>The whole pattern at the start of a string: group 1, group 2 and the text after the
  match.\<close>

definition match_here :: "string \<Rightarrow> (string \<times> string \<times> string) option" where
  "match_here s =
     (case s of
        [] \<Rightarrow> None
      | c # s1 \<Rightarrow>
          if c \<noteq> CHR ''/'' \<or> takeWhile is_hex s1 = [] then None
          else
            let r1 = dropWhile is_hex s1 in
            (case (if starts_with ''/audios'' r1 then match_tail (drop 7 r1) else None) of
               Some (g2, rest) \<Rightarrow> Some (''/audios'', g2, rest)
             | None \<Rightarrow>
                 (case match_tail r1 of
                    Some (g2, rest) \<Rightarrow> Some ([], g2, rest)
                  | None \<Rightarrow> None)))"

lemma match_tail_shorter: "match_tail s = Some (g2, rest) \<Longrightarrow> length rest < length s"
proof -
  assume m: "match_tail s = Some (g2, rest)"
  then obtain c s1 where s: "s = c # s1" by (cases s) (simp_all add: match_tail_def)
  from m s obtain d r2 where d: "drop 6 (dropWhile is_hex s1) = d # r2" and r: "rest = drop 4 r2"
    by (auto simp: match_tail_def Let_def split: if_splits list.splits)
  have "length (d # r2) \<le> length (dropWhile is_hex s1)" unfolding d [symmetric] by simp
  also have "\<dots> \<le> length s1" by (rule length_dropWhile_le)
  finally show ?thesis using r s by simp
qed

lemma match_here_shorter:
  "match_here s = Some (g1, g2, rest) \<Longrightarrow> length rest < length s"
proof -
  assume m: "match_here s = Some (g1, g2, rest)"
  then obtain c s1 where s: "s = c # s1" by (cases s) (simp_all add: match_here_def)
  from m s have "match_tail (drop 7 (dropWhile is_hex s1)) = Some (g2, rest) \<or>
      match_tail (dropWhile is_hex s1) = Some (g2, rest)"
    by (auto simp: match_here_def Let_def split: if_splits option.splits)
  then have "length rest < length (dropWhile is_hex s1)"
    by (auto dest!: match_tail_shorter)
  also have "\<dots> \<le> length s1" by (rule length_dropWhile_le)
  finally show ?thesis using s by simp
qed

text \<open>\<^verbatim>\<open>RE_M3U8_TO_MP3.sub(r'\1/\2.mp3', link)\<close>: every match, leftmost first and not
  overlapping, is replaced.\<close>

function RE_M3U8_TO_MP3_sub :: "string \<Rightarrow> string" where
  "RE_M3U8_TO_MP3_sub [] = []"
| "RE_M3U8_TO_MP3_sub (c # cs) =
     (case match_here (c # cs) of
        Some (g1, g2, rest) \<Rightarrow> g1 @ ''/'' @ g2 @ ''.mp3'' @ RE_M3U8_TO_MP3_sub rest
      | None \<Rightarrow> c # RE_M3U8_TO_MP3_sub cs)"
  by pat_completeness auto
termination
  by (relation "measure length") (auto dest: match_here_shorter)

text \<open>Whether the pattern matches somewhere in a string.\<close>

fun RE_M3U8_TO_MP3_search :: "string \<Rightarrow> bool" where
  "RE_M3U8_TO_MP3_search [] = False"
| "RE_M3U8_TO_MP3_search (c # cs) =
     (match_here (c # cs) \<noteq> None \<or> RE_M3U8_TO_MP3_search cs)"

text \<open>No match of the pattern begins inside the prefix \<open>p\<close> of the string \<open>p @ s\<close>.\<close>

fun no_match_begins :: "string \<Rightarrow> string \<Rightarrow> bool" where
  "no_match_begins [] s = True"
| "no_match_begins (c # p) s = (match_here (c # p @ s) = None \<and> no_match_begins p s)"

text \<open>The rewrite of audio.py:735-736, under the construction-time toggle.\<close>

definition convert_link :: "bool \<Rightarrow> string \<Rightarrow> string" where
  "convert_link convert_m3u8_links link =
     (if convert_m3u8_links \<and> contains ''m3u8'' link then RE_M3U8_TO_MP3_sub link else link)"


section \<open>The HTTP collaborator, the clock and the outcome of a generator\<close>

text \<open>
  The forms the module posts. \<open>ReloadAudio ids\<close> is \<^verbatim>\<open>act=reload_audio\<close>;
  \<open>LoadSection owner_id playlist_id offset access_hash\<close> is \<^verbatim>\<open>act=load_section\<close>;
  \<open>SectionSearch owner_id q\<close> is \<^verbatim>\<open>act=section, section=search\<close>;
  \<open>LoadCatalogSection section_id start_from\<close> is \<^verbatim>\<open>act=load_catalog_section\<close>;
  \<open>AudioBlock block\<close> is the form \<^verbatim>\<open>block=..., section=recoms\<close>.
\<close>

datatype request =
    ReloadAudio string
  | LoadSection pyval pyval int pyval
  | SectionSearch pyval string
  | LoadCatalogSection pyval pyval
  | AudioBlock string

text \<open>
  The value of \<^verbatim>\<open>result['data']\<close> in a \<^verbatim>\<open>reload_audio\<close> response: the key is missing
  (\<open>Absent\<close>), the value is \<^verbatim>\<open>null\<close> (\<open>Null\<close>), or it is an array whose first element is
  the array of resolved audio records (\<open>Arr\<close>; \<open>Arr []\<close> is the empty array).
\<close>

datatype envelope = Absent | Null | Arr "audio list list"

text \<open>\<^verbatim>\<open>response['data'][0]\<close> of a \<^verbatim>\<open>load_section\<close> response when it is truthy: its
  keys \<^verbatim>\<open>list\<close> and \<^verbatim>\<open>hasMore\<close> (the latter by its truth value).\<close>

record section_data =
  section_list :: "audio list"
  hasMore :: bool

text \<open>\<^verbatim>\<open>json_response['payload'][1][1]\<close> of a catalog response as the search driver reads
  it: the playlists (\<open>None\<close> for a falsy entry), each with its \<^verbatim>\<open>type\<close> and \<^verbatim>\<open>list\<close>,
  and the cursor.\<close>

record playlist =
  playlist_type :: string
  playlist_list :: "audio list"

record catalog =
  playlists :: "playlist option list"
  sectionId :: pyval
  nextFrom :: pyval

text \<open>
  What the news driver reads. The first page is the JSON literal embedded in the HTML
  (\<^verbatim>\<open>sectionData.recoms\<close>: the playlist's list and the cursor). A later page is read at
  \<^verbatim>\<open>payload[1][1].playlist.list\<close>, and the loop then takes the next cursor from
  \<^verbatim>\<open>sectionData.recoms\<close> of that same page: \<open>news_cursor\<close> is \<open>None\<close> when the page
  has no \<^verbatim>\<open>sectionData\<close> key.
\<close>

record recoms =
  recoms_list :: "audio list"
  recoms_sectionId :: pyval
  recoms_nextFrom :: pyval

record news_page =
  news_list :: "audio list"
  news_cursor :: "(pyval \<times> pyval) option"

text \<open>
  A double of the HTTP collaborator: for each kind of request, the decoded response to
  the n-th request of that kind, and the time the n-th POST takes. Quantifying over
  doubles covers every behaviour of a server, since the requests of one run are
  determined by the responses before them. The generators are driven by a consumer:
  \<open>think n\<close> is the time that passes while the consumer handles what the n-th
  resolving response made the generator yield.
\<close>

record http_double =
  reload_audio :: "nat \<Rightarrow> envelope"
  load_section :: "nat \<Rightarrow> section_data option"
  catalog_section :: "nat \<Rightarrow> catalog"
  new_songs :: recoms
  news_section :: "nat \<Rightarrow> news_page"
  latency :: "nat \<Rightarrow> real"
  think :: "nat \<Rightarrow> real"

text \<open>
  The world a call runs in: the reading of \<^verbatim>\<open>time.time()\<close>, the POSTs sent so far with
  the clock at the moment each was sent, and how many resolving responses and page
  responses were consumed. Time is a real number; it advances by \<^verbatim>\<open>time.sleep\<close> and by
  the time a POST takes.
\<close>

record world =
  clock :: real
  sent :: "(real \<times> request) list"
  n_reload :: nat
  n_page :: nat

definition sleep :: "real \<Rightarrow> world \<Rightarrow> world" where
  "sleep secs w = w\<lparr>clock := clock w + secs\<rparr>"

definition consumed :: "http_double \<Rightarrow> nat \<Rightarrow> world \<Rightarrow> world" where
  "consumed h n w = w\<lparr>clock := clock w + think h n\<rparr>"

definition post :: "http_double \<Rightarrow> request \<Rightarrow> world \<Rightarrow> world" where
  "post h r w =
     w\<lparr>sent := sent w @ [(clock w, r)], clock := clock w + latency h (length (sent w))\<rparr>"

definition post_reload_audio :: "http_double \<Rightarrow> string \<Rightarrow> world \<Rightarrow> envelope \<times> world" where
  "post_reload_audio h ids w =
     (reload_audio h (n_reload w), (post h (ReloadAudio ids) w)\<lparr>n_reload := Suc (n_reload w)\<rparr>)"

text \<open>
  A generator run to its end: the values it yielded in order, the exception that ended
  it if one did, and the world afterwards.
\<close>

record 'a run =
  yielded :: "'a list"
  raised :: "py_error option"
  after :: world

text \<open>A \<^verbatim>\<open>for\<close> loop that yields \<open>f x\<close> for each element until \<open>f\<close> raises.\<close>

fun yield_each :: "('a \<Rightarrow> py_error + 'b) \<Rightarrow> 'a list \<Rightarrow> 'b list \<times> py_error option" where
  "yield_each f [] = ([], None)"
| "yield_each f (x # xs) =
     (case f x of
        Inl e \<Rightarrow> ([], Some e)
      | Inr y \<Rightarrow> (case yield_each f xs of (ys, err) \<Rightarrow> (y # ys, err)))"

section \<open>The batch resolver: \<^verbatim>\<open>scrap_tracks\<close>\<close>

text \<open>
  The collaborators outside the module: \<^verbatim>\<open>bsoup_trackinfo\<close> (audio.py:703) only
  composes \<^verbatim>\<open>str.strip\<close> with the HTML parser BeautifulSoup, and
  \<^verbatim>\<open>decode_audio_url\<close> is imported from \<^verbatim>\<open>audio_url_decoder\<close>. Both may raise.
\<close>

record collab =
  bsoup_trackinfo :: "pyval \<Rightarrow> pyval \<Rightarrow> py_error + (string \<times> string)"
  decode_audio_url :: "string \<Rightarrow> int \<Rightarrow> py_error + string"

record track =
  track_id :: pyval
  track_owner_id :: pyval
  track_covers :: "string list"
  track_url :: string
  track_artist :: string
  track_title :: string
  track_duration :: pyval

definition RPS_DELAY_RELOAD_AUDIO :: real where
  "RPS_DELAY_RELOAD_AUDIO = 3 / 2"

text \<open>\<^verbatim>\<open>range(i, n, step)\<close> for a positive step, and the slice \<^verbatim>\<open>xs[i:j]\<close>.\<close>

function py_range :: "nat \<Rightarrow> nat \<Rightarrow> nat \<Rightarrow> nat list" where
  "py_range i n step = (if i < n \<and> 0 < step then i # py_range (i + step) n step else [])"
  by pat_completeness auto
termination
  by (relation "measure (\<lambda>(i, n, step). n - i)") auto

declare py_range.simps [simp del]

definition py_slice :: "'a list \<Rightarrow> nat \<Rightarrow> nat \<Rightarrow> 'a list" where
  "py_slice xs i j = take (j - i) (drop i xs)"

text \<open>\<^verbatim>\<open>[ids[i:i + 10] for i in range(0, len(ids), 10)]\<close> (audio.py:711).\<close>

definition ids_groups :: "full_id list \<Rightarrow> full_id list list" where
  "ids_groups ids = map (\<lambda>i. py_slice ids i (i + 10)) (py_range 0 (length ids) 10)"

text \<open>\<^verbatim>\<open>','.join(['_'.join(i) for i in ids_group])\<close> (audio.py:719-720).\<close>

definition ids_payload :: "full_id list \<Rightarrow> string" where
  "ids_payload ids_group =
     join '','' (map (\<lambda>(a, b, c, d). join ''_'' [a, b, c, d]) ids_group)"

text \<open>
  The body of the inner loop (audio.py:727-747) for one resolved record. The membership
  test \<^verbatim>\<open>in link\<close> needs a string; \<^verbatim>\<open>.split\<close> exists on strings only.
\<close>

definition track_of :: "collab \<Rightarrow> int \<Rightarrow> bool \<Rightarrow> audio \<Rightarrow> py_error + track" where
  "track_of c user_id convert_m3u8_links audio =
     ebind (py_index audio AT_PERFORMER) (\<lambda>performer.
     ebind (py_index audio AT_TITLE) (\<lambda>title0.
     ebind (bsoup_trackinfo c performer title0) (\<lambda>(artist, title).
     ebind (py_index audio AT_DURATION) (\<lambda>duration.
     ebind (py_index audio AT_URL) (\<lambda>link0.
       case link0 of
         PStr l \<Rightarrow>
           ebind (if contains ''audio_api_unavailable'' l
                  then decode_audio_url c l user_id else Inr l) (\<lambda>link1.
           let link = convert_link convert_m3u8_links link1 in
           ebind (py_index audio AT_ID) (\<lambda>ident.
           ebind (py_index audio AT_OWNER_ID) (\<lambda>owner.
           ebind (py_index audio AT_COVER_URL) (\<lambda>cover.
           ebind (if truthy cover
                  then (case cover of
                          PStr s \<Rightarrow> Inr (split_on CHR '','' s)
                        | _ \<Rightarrow> Inl AttributeError)
                  else Inr []) (\<lambda>covers.
             Inr \<lparr>track_id = ident, track_owner_id = owner, track_covers = covers,
                  track_url = link, track_artist = artist, track_title = title,
                  track_duration = duration\<rparr>)))))
       | _ \<Rightarrow> Inl TypeError)))))"

text \<open>
  What one response contributes (audio.py:724-747): \<^verbatim>\<open>result['data']\<close> raises
  \<^verbatim>\<open>KeyError\<close> when the key is missing; a falsy value is skipped; otherwise the records
  of \<^verbatim>\<open>result['data'][0]\<close> are decoded and yielded one by one.
\<close>

definition reload_result_tracks ::
  "collab \<Rightarrow> int \<Rightarrow> bool \<Rightarrow> envelope \<Rightarrow> track list \<times> py_error option" where
  "reload_result_tracks c user_id convert_m3u8_links result =
     (case result of
        Absent \<Rightarrow> ([], Some KeyError)
      | Null \<Rightarrow> ([], None)
      | Arr [] \<Rightarrow> ([], None)
      | Arr (data_audio # _) \<Rightarrow> yield_each (track_of c user_id convert_m3u8_links) data_audio)"

text \<open>
  Vocabulary for the pacing of the loop: the world in which the request of a group is
  sent (after the sleep of audio.py:712-715, if any), the world once its response has
  arrived (where \<^verbatim>\<open>last_request\<close> is read again), and the world in which the next
  round of the loop starts.
\<close>

definition paced :: "real \<Rightarrow> world \<Rightarrow> world" where
  "paced last_request w =
     (if RPS_DELAY_RELOAD_AUDIO - (clock w - last_request) > 0
      then sleep (RPS_DELAY_RELOAD_AUDIO - (clock w - last_request)) w else w)"

definition after_request :: "http_double \<Rightarrow> full_id list \<Rightarrow> real \<Rightarrow> world \<Rightarrow> world" where
  "after_request h ids_group last_request w =
     snd (post_reload_audio h (ids_payload ids_group) (paced last_request w))"

definition next_round :: "http_double \<Rightarrow> full_id list \<Rightarrow> real \<Rightarrow> world \<Rightarrow> world" where
  "next_round h ids_group last_request w =
     consumed h (n_reload w) (after_request h ids_group last_request w)"

text \<open>The loop of \<^verbatim>\<open>scrap_tracks\<close> (audio.py:711-747) over the groups still to resolve,
  with the value of \<^verbatim>\<open>last_request\<close>.\<close>

fun scrap_tracks_loop ::
  "collab \<Rightarrow> http_double \<Rightarrow> int \<Rightarrow> bool \<Rightarrow> real \<Rightarrow> full_id list list \<Rightarrow> world \<Rightarrow> track run"
  where
  "scrap_tracks_loop c h user_id cv last_request [] w =
     \<lparr>yielded = [], raised = None, after = w\<rparr>"
| "scrap_tracks_loop c h user_id cv last_request (ids_group # rest) w =
     (let delay = RPS_DELAY_RELOAD_AUDIO - (clock w - last_request);
          w1 = (if delay > 0 then sleep delay w else w);
          posted = post_reload_audio h (ids_payload ids_group) w1;
          result = fst posted;
          w2 = snd posted;
          last_request' = clock w2;
          got = reload_result_tracks c user_id cv result
      in case snd got of
           Some e \<Rightarrow> \<lparr>yielded = fst got, raised = Some e, after = w2\<rparr>
         | None \<Rightarrow>
             (let w3 = consumed h (n_reload w) w2;
                  r = scrap_tracks_loop c h user_id cv last_request' rest w3
              in r\<lparr>yielded := fst got @ yielded r\<rparr>))"

definition scrap_tracks ::
  "collab \<Rightarrow> http_double \<Rightarrow> full_id list \<Rightarrow> int \<Rightarrow> bool \<Rightarrow> world \<Rightarrow> track run" where
  "scrap_tracks c h ids user_id convert_m3u8_links w =
     scrap_tracks_loop c h user_id convert_m3u8_links 0 (ids_groups ids) w"

text \<open>The POSTs a run added to the log of the world \<open>w\<close> it started in.\<close>

definition issued :: "world \<Rightarrow> 'a run \<Rightarrow> (real \<times> request) list" where
  "issued w r = drop (length (sent w)) (sent (after r))"

text \<open>Concrete collaborators, doubles and worlds used in the examples below.\<close>

definition echo_collab :: collab where
  "echo_collab =
     \<lparr>bsoup_trackinfo =
        (\<lambda>performer title.
           case (performer, title) of
             (PStr p, PStr t) \<Rightarrow> Inr (p, t)
           | _ \<Rightarrow> Inl TypeError),
      decode_audio_url = (\<lambda>link user_id. Inl DecodeError)\<rparr>"

definition resolved :: "string \<Rightarrow> audio" where
  "resolved link =
     [PInt 5, PInt (- 12), PStr link, PStr ''Title'', PStr ''Artist'', PInt 180,
      PInt 0, PNone, PStr [], PInt 0, PInt 0, PStr ''search_global_audios'', PStr [],
      PStr ''a/b/c/d/e/f'', PStr ''c1,c2'']"

definition no_pages :: http_double where
  "no_pages =
     \<lparr>reload_audio = (\<lambda>n. Null),
      load_section = (\<lambda>n. None),
      catalog_section = (\<lambda>n. \<lparr>playlists = [], sectionId = PNone, nextFrom = PNone\<rparr>),
      new_songs = \<lparr>recoms_list = [], recoms_sectionId = PNone, recoms_nextFrom = PNone\<rparr>,
      news_section = (\<lambda>n. \<lparr>news_list = [], news_cursor = None\<rparr>),
      latency = (\<lambda>n. 1 / 4),
      think = (\<lambda>n. 0)\<rparr>"

definition start :: world where
  "start = \<lparr>clock = 100, sent = [], n_reload = 0, n_page = 0\<rparr>"

definition twelve_ids :: "full_id list" where
  "twelve_ids =
     replicate 10 (''-12'', ''5'', ''c'', ''f'') @
     [(''-12'', ''6'', ''c'', ''f''), (''7'', ''8'', ''x'', ''y'')]"

definition no_data :: http_double where
  "no_data = no_pages\<lparr>reload_audio := (\<lambda>n. Absent)\<rparr>"


section \<open>The pagination drivers\<close>

text \<open>
  The object a driver is a method of: the session's user id and the construction-time
  toggle (audio.py:118-121). Its HTTP session is the double and the world.
\<close>

record vk_audio =
  user_id :: int
  convert_m3u8_links :: bool

datatype AudiosSearchOptions = GLOBAL_AUDIOS | MY_MUSIC | LYRICS

fun option_value :: "AudiosSearchOptions \<Rightarrow> string" where
  "option_value GLOBAL_AUDIOS = ''search_global_audios''"
| "option_value MY_MUSIC = ''search_owned_audios''"
| "option_value LYRICS = ''_global_audios_lyrics''"

definition TRACKS_PER_USER_PAGE :: int where "TRACKS_PER_USER_PAGE = 2000"
definition TRACKS_PER_ALBUM_PAGE :: int where "TRACKS_PER_ALBUM_PAGE = 2000"

text \<open>What a driver yields: a resolved track, or in raw mode the record itself.\<close>

datatype item = TrackItem track | RawItem audio

text \<open>
  A \<^verbatim>\<open>while\<close> loop: its body either ends the generator with an outcome or goes round
  again with new values of the loop variables. The loop has no value when it never ends.
\<close>

datatype ('s, 'r) step = Continue 's | Done 'r

partial_function (option) iterate :: "('s \<Rightarrow> ('s, 'r) step) \<Rightarrow> 's \<Rightarrow> 'r option" where
  "iterate body s = (case body s of Done r \<Rightarrow> Some r | Continue s' \<Rightarrow> iterate body s')"

declare iterate.simps [code]

text \<open>The POST of a page request and the response the double serves for it.\<close>

definition post_load_section ::
  "http_double \<Rightarrow> request \<Rightarrow> world \<Rightarrow> section_data option \<times> world" where
  "post_load_section h r w = (load_section h (n_page w), (post h r w)\<lparr>n_page := Suc (n_page w)\<rparr>)"

definition post_catalog :: "http_double \<Rightarrow> request \<Rightarrow> world \<Rightarrow> catalog \<times> world" where
  "post_catalog h r w = (catalog_section h (n_page w), (post h r w)\<lparr>n_page := Suc (n_page w)\<rparr>)"

definition post_news :: "http_double \<Rightarrow> request \<Rightarrow> world \<Rightarrow> news_page \<times> world" where
  "post_news h r w = (news_section h (n_page w), (post h r w)\<lparr>n_page := Suc (n_page w)\<rparr>)"

text \<open>
  Raw mode (audio.py:171-174 and 410-412): the performer and title of the record are
  replaced by what \<^verbatim>\<open>bsoup_trackinfo\<close> returns, and the record is yielded.
\<close>

definition raw_item :: "collab \<Rightarrow> audio \<Rightarrow> py_error + audio" where
  "raw_item c i =
     ebind (py_index i AT_PERFORMER) (\<lambda>performer.
     ebind (py_index i AT_TITLE) (\<lambda>title.
     ebind (bsoup_trackinfo c performer title) (\<lambda>(artist, title').
       Inr (i[AT_PERFORMER := PStr artist, AT_TITLE := PStr title']))))"

definition yield_raw :: "collab \<Rightarrow> audio list \<Rightarrow> world \<Rightarrow> item run" where
  "yield_raw c records w =
     (case yield_each (raw_item c) records of
        (items, err) \<Rightarrow> \<lparr>yielded = map RawItem items, raised = err, after = w\<rparr>)"

text \<open>\<^verbatim>\<open>yield from scrap_tracks(...)\<close> inside a driver.\<close>

definition yield_tracks ::
  "collab \<Rightarrow> http_double \<Rightarrow> vk_audio \<Rightarrow> full_id list \<Rightarrow> world \<Rightarrow> item run" where
  "yield_tracks c h self ids w =
     (let t = scrap_tracks c h ids (user_id self) (convert_m3u8_links self) w
      in \<lparr>yielded = map TrackItem (yielded t), raised = raised t, after = after t\<rparr>)"

subsection \<open>\<^verbatim>\<open>get_iter\<close> (audio.py:127-193)\<close>

record get_iter_vars =
  gi_offset :: int
  gi_response :: "section_data option"
  gi_world :: world
  gi_yielded :: "item list"

text \<open>
  One round of the \<^verbatim>\<open>while True\<close> loop. The head of the loop (audio.py:146-149) adds
  \<^verbatim>\<open>offset_diff\<close> when there is a previous response and it has more, and breaks when
  there is one and it has no more. The raw branch ends in \<^verbatim>\<open>continue\<close>; the other branch
  adds \<^verbatim>\<open>offset_diff\<close> once more at its end (audio.py:190-191).
\<close>

definition get_iter_body ::
  "collab \<Rightarrow> http_double \<Rightarrow> vk_audio \<Rightarrow> pyval \<Rightarrow> pyval \<Rightarrow> pyval \<Rightarrow> bool \<Rightarrow> int \<Rightarrow>
   get_iter_vars \<Rightarrow> (get_iter_vars, item run) step" where
  "get_iter_body c h self owner_id album_id access_hash raw offset_diff s =
     (case (case gi_response s of
              None \<Rightarrow> Some (gi_offset s)
            | Some r \<Rightarrow> if hasMore r then Some (gi_offset s + offset_diff) else None) of
        None \<Rightarrow> Done \<lparr>yielded = gi_yielded s, raised = None, after = gi_world s\<rparr>
      | Some offset \<Rightarrow>
          (let posted = post_load_section h
                 (LoadSection owner_id (if truthy album_id then album_id else PInt (- 1))
                    offset access_hash) (gi_world s);
               w1 = snd posted
           in case fst posted of
                None \<Rightarrow> Done \<lparr>yielded = gi_yielded s, raised = Some AccessDenied, after = w1\<rparr>
              | Some r \<Rightarrow>
                  if raw then
                    (let y = yield_raw c (section_list r) w1
                     in case raised y of
                          Some e \<Rightarrow>
                            Done \<lparr>yielded = gi_yielded s @ yielded y, raised = Some e,
                                  after = after y\<rparr>
                        | None \<Rightarrow>
                            Continue \<lparr>gi_offset = offset, gi_response = Some r,
                                      gi_world = after y,
                                      gi_yielded = gi_yielded s @ yielded y\<rparr>)
                  else
                    (case scrap_ids (section_list r) of
                       Inl e \<Rightarrow> Done \<lparr>yielded = gi_yielded s, raised = Some e, after = w1\<rparr>
                     | Inr ids \<Rightarrow>
                         if ids = [] then
                           Done \<lparr>yielded = gi_yielded s, raised = None, after = w1\<rparr>
                         else
                           (let y = yield_tracks c h self ids w1
                            in case raised y of
                                 Some e \<Rightarrow>
                                   Done \<lparr>yielded = gi_yielded s @ yielded y, raised = Some e,
                                         after = after y\<rparr>
                               | None \<Rightarrow>
                                   if hasMore r then
                                     Continue \<lparr>gi_offset = offset + offset_diff,
                                               gi_response = Some r, gi_world = after y,
                                               gi_yielded = gi_yielded s @ yielded y\<rparr>
                                   else
                                     Done \<lparr>yielded = gi_yielded s @ yielded y, raised = None,
                                           after = after y\<rparr>))))"

definition get_iter ::
  "collab \<Rightarrow> http_double \<Rightarrow> vk_audio \<Rightarrow> pyval \<Rightarrow> pyval \<Rightarrow> pyval \<Rightarrow> bool \<Rightarrow> world \<Rightarrow>
   item run option" where
  "get_iter c h self owner_id album_id access_hash raw w =
     iterate
       (get_iter_body c h self
          (if owner_id = PNone then PInt (user_id self) else owner_id) album_id access_hash raw
          (if album_id \<noteq> PNone then TRACKS_PER_ALBUM_PAGE else TRACKS_PER_USER_PAGE))
       \<lparr>gi_offset = 0, gi_response = None, gi_world = w, gi_yielded = []\<rparr>"

text \<open>The offsets of the \<^verbatim>\<open>load_section\<close> requests in a log, in the order sent.\<close>

fun section_offsets :: "(real \<times> request) list \<Rightarrow> int list" where
  "section_offsets [] = []"
| "section_offsets ((t, LoadSection owner_id playlist_id offset access_hash) # rest) =
     offset # section_offsets rest"
| "section_offsets (other # rest) = section_offsets rest"

subsection \<open>\<^verbatim>\<open>search_iter\<close> (audio.py:359-425)\<close>

text \<open>
  The choice of \<^verbatim>\<open>desired_index\<close> (audio.py:383-389): the index of the first playlist
  of type \<^verbatim>\<open>search\<close> with a non-empty list whose first record names the search scope in
  its \<^verbatim>\<open>CONTEXT\<close> field; \<open>None\<close> when the loop ends without \<^verbatim>\<open>break\<close>. Subscripting a
  falsy (null) playlist and testing membership in a value that is not a string raise
  \<^verbatim>\<open>TypeError\<close>.
\<close>

fun find_desired :: "string \<Rightarrow> nat \<Rightarrow> playlist option list \<Rightarrow> py_error + nat option" where
  "find_desired v index [] = Inr None"
| "find_desired v index (None # rest) = Inl TypeError"
| "find_desired v index (Some p # rest) =
     (if playlist_type p \<noteq> ''search'' \<or> length (playlist_list p) = 0
      then find_desired v (Suc index) rest
      else ebind (py_index (hd (playlist_list p)) AT_CONTEXT) (\<lambda>ctx.
             case ctx of
               PStr s \<Rightarrow> if contains v s then Inr (Some index)
                         else find_desired v (Suc index) rest
             | _ \<Rightarrow> Inl TypeError))"

text \<open>The value of \<^verbatim>\<open>ids\<close> after audio.py:399-401, which is what line 414 counts.\<close>

definition page_ids :: "int \<Rightarrow> int \<Rightarrow> full_id list \<Rightarrow> full_id list" where
  "page_ids offset offset_left ids =
     (if offset_left + int (length ids) \<ge> offset \<and> offset_left < offset
      then drop (nat (offset - offset_left)) ids else ids)"

text \<open>What one page yields (audio.py:399-412).\<close>

definition search_page ::
  "collab \<Rightarrow> http_double \<Rightarrow> vk_audio \<Rightarrow> int \<Rightarrow> bool \<Rightarrow> int \<Rightarrow> playlist \<Rightarrow> full_id list \<Rightarrow> world \<Rightarrow>
   item run" where
  "search_page c h self offset raw offset_left pl ids w =
     (if offset_left + int (length ids) \<ge> offset then
        (if \<not> raw then yield_tracks c h self (page_ids offset offset_left ids) w
         else yield_raw c (playlist_list pl) w)
      else \<lparr>yielded = [], raised = None, after = w\<rparr>)"

record search_vars =
  si_offset_left :: int
  si_json_response :: catalog
  si_world :: world
  si_yielded :: "item list"

text \<open>One round of the \<^verbatim>\<open>while\<close> loop of audio.py:391-425, its condition included.\<close>

definition search_iter_body ::
  "collab \<Rightarrow> http_double \<Rightarrow> vk_audio \<Rightarrow> int \<Rightarrow> bool \<Rightarrow> nat \<Rightarrow> search_vars \<Rightarrow>
   (search_vars, item run) step" where
  "search_iter_body c h self offset raw desired_index s =
     (case py_index (playlists (si_json_response s)) desired_index of
        Inl e \<Rightarrow> Done \<lparr>yielded = si_yielded s, raised = Some e, after = si_world s\<rparr>
      | Inr None \<Rightarrow> Done \<lparr>yielded = si_yielded s, raised = None, after = si_world s\<rparr>
      | Inr (Some pl) \<Rightarrow>
          (case scrap_ids (playlist_list pl) of
             Inl e \<Rightarrow> Done \<lparr>yielded = si_yielded s, raised = Some e, after = si_world s\<rparr>
           | Inr ids \<Rightarrow>
               if ids = [] then
                 Done \<lparr>yielded = si_yielded s, raised = None, after = si_world s\<rparr>
               else
                 (let y = search_page c h self offset raw (si_offset_left s) pl ids (si_world s)
                  in case raised y of
                       Some e \<Rightarrow>
                         Done \<lparr>yielded = si_yielded s @ yielded y, raised = Some e,
                               after = after y\<rparr>
                     | None \<Rightarrow>
                         (let posted = post_catalog h
                                (LoadCatalogSection (sectionId (si_json_response s))
                                   (nextFrom (si_json_response s))) (after y)
                          in Continue
                               \<lparr>si_offset_left = si_offset_left s +
                                   int (length (page_ids offset (si_offset_left s) ids)),
                                si_json_response = fst posted,
                                si_world = snd posted,
                                si_yielded = si_yielded s @ yielded y\<rparr>))))"

definition search_iter ::
  "collab \<Rightarrow> http_double \<Rightarrow> vk_audio \<Rightarrow> string \<Rightarrow> int \<Rightarrow> bool \<Rightarrow> AudiosSearchOptions \<Rightarrow> world \<Rightarrow>
   item run option" where
  "search_iter c h self q offset raw search_options w =
     (let posted = post_catalog h (SectionSearch (PInt (user_id self)) q) w;
          json_response = fst posted;
          w1 = snd posted
      in case find_desired (option_value search_options) 0 (playlists json_response) of
           Inl e \<Rightarrow> Some \<lparr>yielded = [], raised = Some e, after = w1\<rparr>
         | Inr found \<Rightarrow>
             iterate
               (search_iter_body c h self offset raw (case found of None \<Rightarrow> 0 | Some i \<Rightarrow> i))
               \<lparr>si_offset_left = 0, si_json_response = json_response, si_world = w1,
                si_yielded = []\<rparr>)"

subsection \<open>\<^verbatim>\<open>get_news_iter\<close> (audio.py:499-555)\<close>

text \<open>The identities handed to the resolver for a page (audio.py:522 and 550).\<close>

definition news_ids :: "int \<Rightarrow> int \<Rightarrow> full_id list \<Rightarrow> full_id list" where
  "news_ids offset offset_left ids =
     (if offset_left \<ge> offset then ids else drop (nat (offset - offset_left)) ids)"

definition news_yield ::
  "collab \<Rightarrow> http_double \<Rightarrow> vk_audio \<Rightarrow> int \<Rightarrow> int \<Rightarrow> full_id list \<Rightarrow> world \<Rightarrow> item run" where
  "news_yield c h self offset offset_left ids w =
     (if offset_left + int (length ids) \<ge> offset
      then yield_tracks c h self (news_ids offset offset_left ids) w
      else \<lparr>yielded = [], raised = None, after = w\<rparr>)"

record news_vars =
  ni_offset_left :: int
  ni_cursor :: "(pyval \<times> pyval) option"
  ni_world :: world
  ni_yielded :: "item list"

text \<open>
  One round of the \<^verbatim>\<open>while True\<close> loop of audio.py:529-555. The cursor is read from
  \<^verbatim>\<open>json_response['sectionData']['recoms']\<close> of the latest response, which raises
  \<^verbatim>\<open>KeyError\<close> when that response has no such key.
\<close>

definition get_news_iter_body ::
  "collab \<Rightarrow> http_double \<Rightarrow> vk_audio \<Rightarrow> int \<Rightarrow> news_vars \<Rightarrow> (news_vars, item run) step" where
  "get_news_iter_body c h self offset s =
     (case ni_cursor s of
        None \<Rightarrow> Done \<lparr>yielded = ni_yielded s, raised = Some KeyError, after = ni_world s\<rparr>
      | Some (section_id, start_from) \<Rightarrow>
          (let posted = post_news h (LoadCatalogSection section_id start_from) (ni_world s);
               json_response = fst posted;
               w1 = snd posted
           in case scrap_ids (news_list json_response) of
                Inl e \<Rightarrow> Done \<lparr>yielded = ni_yielded s, raised = Some e, after = w1\<rparr>
              | Inr ids \<Rightarrow>
                  if ids = [] then
                    Done \<lparr>yielded = ni_yielded s, raised = None, after = w1\<rparr>
                  else
                    (let y = news_yield c h self offset (ni_offset_left s) ids w1
                     in case raised y of
                          Some e \<Rightarrow>
                            Done \<lparr>yielded = ni_yielded s @ yielded y, raised = Some e,
                                  after = after y\<rparr>
                        | None \<Rightarrow>
                            Continue
                              \<lparr>ni_offset_left = ni_offset_left s + int (length ids),
                               ni_cursor = news_cursor json_response,
                               ni_world = after y,
                               ni_yielded = ni_yielded s @ yielded y\<rparr>)))"

definition get_news_iter ::
  "collab \<Rightarrow> http_double \<Rightarrow> vk_audio \<Rightarrow> int \<Rightarrow> world \<Rightarrow> item run option" where
  "get_news_iter c h self offset w =
     (let w1 = post h (AudioBlock ''new_songs'') w;
          json_response = new_songs h
      in case scrap_ids (recoms_list json_response) of
           Inl e \<Rightarrow> Some \<lparr>yielded = [], raised = Some e, after = w1\<rparr>
         | Inr ids \<Rightarrow>
             (let y = news_yield c h self offset 0 ids w1
              in case raised y of
                   Some e \<Rightarrow> Some \<lparr>yielded = yielded y, raised = Some e, after = after y\<rparr>
                 | None \<Rightarrow>
                     iterate (get_news_iter_body c h self offset)
                       \<lparr>ni_offset_left = int (length ids),
                        ni_cursor =
                          Some (recoms_sectionId json_response, recoms_nextFrom json_response),
                        ni_world = after y,
                        ni_yielded = yielded y\<rparr>))"

text \<open>
  Vocabulary for termination. A page ends the search driver when the playlist at the
  desired index is falsy or yields no identity; \<open>chosen_index\<close> is the index the driver
  selects from its first response.
\<close>

definition search_page_ends :: "nat \<Rightarrow> catalog \<Rightarrow> bool" where
  "search_page_ends desired_index json_response =
     (case py_index (playlists json_response) desired_index of
        Inl e \<Rightarrow> False
      | Inr None \<Rightarrow> True
      | Inr (Some pl) \<Rightarrow> scrap_ids (playlist_list pl) = Inr [])"

definition chosen_index :: "AudiosSearchOptions \<Rightarrow> catalog \<Rightarrow> nat" where
  "chosen_index search_options json_response =
     (case find_desired (option_value search_options) 0 (playlists json_response) of
        Inr (Some i) \<Rightarrow> i
      | _ \<Rightarrow> 0)"

text \<open>Concrete objects and doubles used in the examples below.\<close>

definition me :: vk_audio where
  "me = \<lparr>user_id = 7, convert_m3u8_links = True\<rparr>"

definition two_pages :: http_double where
  "two_pages = no_pages
     \<lparr>load_section :=
        (\<lambda>n. if n = 0
              then Some \<lparr>section_list = [record_with (PInt 5) (PInt (- 12)) ''a/b/c/d/e/f''],
                         hasMore = True\<rparr>
              else Some \<lparr>section_list = [], hasMore = False\<rparr>)\<rparr>"

definition numbered :: "int \<Rightarrow> audio" where
  "numbered k = record_with (PInt k) (PInt 1) ''a/b/c/d/e/f''"

definition search_pages :: http_double where
  "search_pages = no_pages
     \<lparr>catalog_section :=
        (\<lambda>n. if n = 0 then
                \<lparr>playlists =
                   [Some \<lparr>playlist_type = ''search'', playlist_list = map numbered [1, 2, 3, 4, 5]\<rparr>],
                 sectionId = PStr ''s'', nextFrom = PStr ''n1''\<rparr>
              else if n = 1 then
                \<lparr>playlists =
                   [Some \<lparr>playlist_type = ''search'', playlist_list = map numbered [6, 7, 8, 9, 10]\<rparr>],
                 sectionId = PStr ''s'', nextFrom = PStr ''n2''\<rparr>
              else \<lparr>playlists = [None], sectionId = PStr ''s'', nextFrom = PStr []\<rparr>),
      reload_audio := (\<lambda>n. Arr [map resolved [''u8'', ''u9'', ''u10'']])\<rparr>"

text \<open>The loop variables of the search driver on \<open>search_pages\<close> with offset 7, before
  its first and before its second page.\<close>

definition search_vars_1 :: search_vars where
  "search_vars_1 =
     \<lparr>si_offset_left = 0, si_json_response = catalog_section search_pages 0,
      si_world = \<lparr>clock = 401 / 4, sent = [(100, SectionSearch (PInt 7) ''q'')],
                  n_reload = 0, n_page = 1\<rparr>,
      si_yielded = []\<rparr>"

definition search_vars_2 :: search_vars where
  "search_vars_2 =
     \<lparr>si_offset_left = 5, si_json_response = catalog_section search_pages 1,
      si_world = \<lparr>clock = 201 / 2,
                  sent = [(100, SectionSearch (PInt 7) ''q''),
                          (401 / 4, LoadCatalogSection (PStr ''s'') (PStr ''n1''))],
                  n_reload = 0, n_page = 2\<rparr>,
      si_yielded = []\<rparr>"

definition numbered_ids :: "int list \<Rightarrow> full_id list" where
  "numbered_ids ks = map (\<lambda>k. (''1'', int_str k, ''c'', ''f'')) ks"

definition endless_pages :: http_double where
  "endless_pages = no_pages\<lparr>load_section := (\<lambda>n. Some \<lparr>section_list = [], hasMore = True\<rparr>)\<rparr>"

definition news_pages :: http_double where
  "news_pages = no_pages
     \<lparr>new_songs := \<lparr>recoms_list = [numbered 1], recoms_sectionId = PStr ''s'',
                     recoms_nextFrom = PStr ''n1''\<rparr>,
      news_section :=
        (\<lambda>n. if n = 0 then \<lparr>news_list = [numbered 2],
                                news_cursor = Some (PStr ''s'', PStr ''n2'')\<rparr>
              else \<lparr>news_list = [], news_cursor = None\<rparr>)\<rparr>"


section \<open>Properties of identity extraction\<close>

lemma nat_digits_not_Nil: "nat_digits n \<noteq> []"
  by (subst nat_digits.simps) simp

lemma int_str_not_Nil: "int_str i \<noteq> []"
  by (simp add: int_str_def nat_digits_not_Nil)

lemma split_on_not_Nil: "split_on c s \<noteq> []"
  by (induction s) (auto split: list.splits)

lemma full_id_of_tokens:
  assumes "6 \<le> length (hash_tokens track)"
  shows "full_id_of track =
         Inr (if all_truthy (spec_identity track) then Some (spec_identity track) else None)"
  using assms
  by (auto simp: full_id_of_def hash_tokens_def hashes_of_def spec_identity_def py_index_def
      ebind_def AT_defs Let_def split: sum.splits pyval.splits option.splits if_splits)

lemma full_id_of_short:
  assumes "hashes_of track = Some hs" and "length (split_on CHR ''/'' hs) < 6"
  shows "full_id_of track = Inl IndexError"
  using assms
  by (auto simp: full_id_of_def hashes_of_def py_index_def ebind_def AT_defs Let_def
      split: sum.splits pyval.splits option.splits if_splits)

lemma scrap_ids_loop_tokens:
  assumes "\<forall>track\<in>set audio_data. 6 \<le> length (hash_tokens track)"
  shows "scrap_ids_loop ids audio_data =
         Inr (ids @ filter all_truthy (map spec_identity audio_data))"
  using assms
  by (induction audio_data arbitrary: ids) (simp_all add: full_id_of_tokens)

lemma scrap_ids_loop_short:
  assumes "\<forall>track\<in>set audio_data. hashes_of track \<noteq> None"
    and "\<exists>track\<in>set audio_data. length (hash_tokens track) < 6"
  shows "scrap_ids_loop ids audio_data = Inl IndexError"
  using assms
proof (induction audio_data arbitrary: ids)
  case Nil
  then show ?case by simp
next
  case (Cons track rest)
  from Cons.prems(1) obtain hs where hs: "hashes_of track = Some hs" by auto
  show ?case
  proof (cases "length (hash_tokens track) < 6")
    case True
    with hs have "full_id_of track = Inl IndexError"
      by (simp add: full_id_of_short hash_tokens_def)
    then show ?thesis by simp
  next
    case False
    then have here: "full_id_of track =
        Inr (if all_truthy (spec_identity track) then Some (spec_identity track) else None)"
      by (simp add: full_id_of_tokens)
    from False Cons.prems have "\<forall>t\<in>set rest. hashes_of t \<noteq> None"
      and "\<exists>t\<in>set rest. length (hash_tokens t) < 6" by auto
    then have "\<And>acc. scrap_ids_loop acc rest = Inl IndexError" by (rule Cons.IH)
    with here show ?thesis by simp
  qed
qed

lemma scrap_html_loop_eq:
  "scrap_html_loop ids items =
   scrap_ids_loop ids
     (map item_data_audio (filter (\<lambda>item. ''audio_item_disabled'' \<notin> set (item_class item)) items))"
  by (induction items arbitrary: ids) (simp_all split: sum.splits option.splits)

text \<open>
  Claim C3. For every input list of audio records whose \<^verbatim>\<open>HASHES\<close> field splits on
  \<^verbatim>\<open>/\<close> into tokens that include positions 2 and 5, \<^verbatim>\<open>scrap_ids\<close> raises nothing and
  returns exactly the 4-tuples \<^verbatim>\<open>(str(owner_id), str(id), token 2, token 5)\<close> of the records
  for which all four components are truthy, that is non-empty, strings; the other records
  are dropped, the input order is kept and nothing is deduplicated (the result is a
  filter of the mapped input). The string of an integer is never empty, so the integer 0
  gives the truthy component \<^verbatim>\<open>"0"\<close>.
\<close>

theorem scrap_ids_keeps_truthy_identities:
  assumes "\<forall>track\<in>set audio_data. 6 \<le> length (hash_tokens track)"
  shows "scrap_ids audio_data = Inr (filter all_truthy (map spec_identity audio_data))"
  using scrap_ids_loop_tokens [OF assms, of "[]"] by (simp add: scrap_ids_def)

theorem scrap_ids_keeps_truthy_identities_witness:
  "scrap_ids [record_with (PInt 5) (PInt (- 12)) ''a/b/c/d/e/f'',
              record_with (PInt 6) (PInt (- 12)) ''a/b//d/e/f'',
              record_with (PInt 0) (PInt 0) ''a/b/c/d/e/f/g'',
              record_with (PInt 5) (PInt (- 12)) ''a/b/c/d/e/f''] =
     Inr [(''-12'', ''5'', ''c'', ''f''), (''0'', ''0'', ''c'', ''f''),
          (''-12'', ''5'', ''c'', ''f'')]"
proof -
  let ?data = "[record_with (PInt 5) (PInt (- 12)) ''a/b/c/d/e/f'',
                record_with (PInt 6) (PInt (- 12)) ''a/b//d/e/f'',
                record_with (PInt 0) (PInt 0) ''a/b/c/d/e/f/g'',
                record_with (PInt 5) (PInt (- 12)) ''a/b/c/d/e/f'']"
  have h: "\<forall>track\<in>set ?data. 6 \<le> length (hash_tokens track)"
    by (simp add: hash_tokens_def hashes_of_def record_with_def py_index_def AT_defs)
  have "filter all_truthy (map spec_identity ?data) =
        [(''-12'', ''5'', ''c'', ''f''), (''0'', ''0'', ''c'', ''f''),
         (''-12'', ''5'', ''c'', ''f'')]"
    by (simp add: spec_identity_def hash_tokens_def hashes_of_def record_with_def py_index_def
        AT_defs all_truthy_def int_str_def nat_digits.simps digit_char_def)
  with scrap_ids_keeps_truthy_identities [OF h] show ?thesis by simp
qed

text \<open>
  Claim C9. \<^verbatim>\<open>scrap_ids\<close> and \<^verbatim>\<open>scrap_ids_from_html\<close> are not total. On records that
  carry a \<^verbatim>\<open>HASHES\<close> string, each function raises \<^verbatim>\<open>IndexError\<close> exactly when some
  record it extracts from (for the HTML variant: some item that is not disabled, on a page
  whose root element exists) has fewer than 6 slash-delimited tokens; such a record is
  not dropped silently. Otherwise, and only then, the function returns its identities.
\<close>

theorem scrap_ids_index_error:
  "((\<forall>track\<in>set audio_data. hashes_of track \<noteq> None) \<longrightarrow>
     scrap_ids audio_data =
       (if \<forall>track\<in>set audio_data. 6 \<le> length (hash_tokens track)
        then Inr (filter all_truthy (map spec_identity audio_data))
        else Inl IndexError)) \<and>
   (root_el html \<and> (\<forall>track\<in>set (enabled_audios html). hashes_of track \<noteq> None) \<longrightarrow>
     scrap_ids_from_html html =
       (if \<forall>track\<in>set (enabled_audios html). 6 \<le> length (hash_tokens track)
        then Inr (filter all_truthy (map spec_identity (enabled_audios html)))
        else Inl IndexError))"
proof -
  have loop: "scrap_ids_loop [] xs =
       (if \<forall>track\<in>set xs. 6 \<le> length (hash_tokens track)
        then Inr (filter all_truthy (map spec_identity xs))
        else Inl IndexError)" if "\<forall>track\<in>set xs. hashes_of track \<noteq> None" for xs
  proof (cases "\<forall>track\<in>set xs. 6 \<le> length (hash_tokens track)")
    case True
    then show ?thesis using scrap_ids_loop_tokens [of xs "[]"] by simp
  next
    case False
    then have "\<exists>track\<in>set xs. length (hash_tokens track) < 6" by (auto simp: not_le)
    with that have "scrap_ids_loop [] xs = Inl IndexError" by (rule scrap_ids_loop_short)
    with False show ?thesis by simp
  qed
  have "(\<forall>track\<in>set audio_data. hashes_of track \<noteq> None) \<longrightarrow>
     scrap_ids audio_data =
       (if \<forall>track\<in>set audio_data. 6 \<le> length (hash_tokens track)
        then Inr (filter all_truthy (map spec_identity audio_data))
        else Inl IndexError)"
    using loop [of audio_data] by (simp add: scrap_ids_def)
  moreover have "root_el html \<and> (\<forall>track\<in>set (enabled_audios html). hashes_of track \<noteq> None) \<longrightarrow>
     scrap_ids_from_html html =
       (if \<forall>track\<in>set (enabled_audios html). 6 \<le> length (hash_tokens track)
        then Inr (filter all_truthy (map spec_identity (enabled_audios html)))
        else Inl IndexError)"
    using loop [of "enabled_audios html"]
    by (simp add: scrap_ids_from_html_def scrap_html_loop_eq enabled_audios_def)
  ultimately show ?thesis by blast
qed

theorem scrap_ids_index_error_witness:
  "scrap_ids [record_with (PInt 5) (PInt (- 12)) ''a/b/c/d/e/f'',
              record_with (PInt 6) (PInt (- 12)) ''a/b/c/d/e''] = Inl IndexError \<and>
   scrap_ids_from_html
     \<lparr>root_el = True,
      audio_items =
        [\<lparr>item_class = [''audio_item''],
          item_data_audio = record_with (PInt 6) (PInt (- 12)) ''a/b/c''\<rparr>]\<rparr> = Inl IndexError"
proof -
  let ?data = "[record_with (PInt 5) (PInt (- 12)) ''a/b/c/d/e/f'',
                record_with (PInt 6) (PInt (- 12)) ''a/b/c/d/e'']"
  let ?html = "\<lparr>root_el = True,
      audio_items =
        [\<lparr>item_class = [''audio_item''],
          item_data_audio = record_with (PInt 6) (PInt (- 12)) ''a/b/c''\<rparr>]\<rparr>"
  have h1: "\<forall>track\<in>set ?data. hashes_of track \<noteq> None"
    by (simp add: hashes_of_def record_with_def py_index_def AT_defs)
  have n1: "\<not> (\<forall>track\<in>set ?data. 6 \<le> length (hash_tokens track))"
    by (simp add: hash_tokens_def hashes_of_def record_with_def py_index_def AT_defs)
  have e: "enabled_audios ?html = [record_with (PInt 6) (PInt (- 12)) ''a/b/c'']"
    by (simp add: enabled_audios_def)
  have h2: "root_el ?html \<and> (\<forall>track\<in>set (enabled_audios ?html). hashes_of track \<noteq> None)"
    unfolding e by (simp add: hashes_of_def record_with_def py_index_def AT_defs)
  have n2: "\<not> (\<forall>track\<in>set (enabled_audios ?html). 6 \<le> length (hash_tokens track))"
    unfolding e by (simp add: hash_tokens_def hashes_of_def record_with_def py_index_def AT_defs)
  note both = scrap_ids_index_error [of ?data ?html]
  from both h1 have "scrap_ids ?data =
      (if \<forall>track\<in>set ?data. 6 \<le> length (hash_tokens track)
       then Inr (filter all_truthy (map spec_identity ?data)) else Inl IndexError)"
    by (rule conjunct1 [THEN mp])
  with n1 have a: "scrap_ids ?data = Inl IndexError"
    by (simp only: if_False)
  from both h2 have "scrap_ids_from_html ?html =
      (if \<forall>track\<in>set (enabled_audios ?html). 6 \<le> length (hash_tokens track)
       then Inr (filter all_truthy (map spec_identity (enabled_audios ?html)))
       else Inl IndexError)"
    by (rule conjunct2 [THEN mp])
  with n2 have b: "scrap_ids_from_html ?html = Inl IndexError"
    by (simp only: if_False)
  from a b show ?thesis by (rule conjI)
qed

section \<open>Properties of URL normalisation\<close>

lemma starts_with_append [simp]: "starts_with p (p @ s)"
  by (induction p) simp_all

lemma contains_Nil [simp]: "contains [] s"
  by (cases s) simp_all

lemma contains_prefix: "contains n (n @ b)"
  by (cases n) simp_all

lemma contains_append: "contains n (a @ n @ b)"
  by (induction a) (simp_all add: contains_prefix)

lemma not_hex_slash [simp]: "\<not> is_hex CHR ''/''"
  by (simp add: is_hex_def)

lemma match_tail_hex:
  assumes "\<forall>c\<in>set h. is_hex c" "h \<noteq> []"
  shows "match_tail (CHR ''/'' # h @ ''/index.m3u8'' @ rest) = Some (h, rest)"
  using assms by (simp add: match_tail_def)

lemma not_audios:
  assumes "\<forall>c\<in>set h. is_hex c" "h \<noteq> []"
  shows "\<not> starts_with ''/audios'' (CHR ''/'' # h @ CHR ''/'' # r)"
proof (cases h)
  case Nil with assms show ?thesis by simp
next
  case (Cons a h')
  show ?thesis
  proof (cases h')
    case Nil with Cons show ?thesis by simp
  next
    case (Cons b h'')
    with \<open>h = a # h'\<close> assms have "is_hex b" by simp
    then have "b \<noteq> CHR ''u''" by (auto simp: is_hex_def)
    with Cons \<open>h = a # h'\<close> show ?thesis by simp
  qed
qed

lemma match_here_audios:
  assumes "\<forall>c\<in>set h1. is_hex c" "h1 \<noteq> []" "\<forall>c\<in>set h2. is_hex c" "h2 \<noteq> []"
  shows "match_here (CHR ''/'' # h1 @ ''/audios/'' @ h2 @ ''/index.m3u8'' @ rest) =
         Some (''/audios'', h2, rest)"
  using assms match_tail_hex [OF assms(3,4), of rest]
  by (simp add: match_here_def)

lemma match_here_plain:
  assumes "\<forall>c\<in>set h1. is_hex c" "h1 \<noteq> []" "\<forall>c\<in>set h2. is_hex c" "h2 \<noteq> []"
  shows "match_here (CHR ''/'' # h1 @ CHR ''/'' # h2 @ ''/index.m3u8'' @ rest) =
         Some ([], h2, rest)"
  using assms match_tail_hex [OF assms(3,4), of rest] not_audios [OF assms(3,4), of "''index.m3u8'' @ rest"]
  by (simp add: match_here_def)

lemma sub_no_match: "\<not> RE_M3U8_TO_MP3_search u \<Longrightarrow> RE_M3U8_TO_MP3_sub u = u"
  by (induction u) (auto split: option.splits)

lemma sub_skips_prefix:
  "no_match_begins p s \<Longrightarrow> RE_M3U8_TO_MP3_sub (p @ s) = p @ RE_M3U8_TO_MP3_sub s"
  by (induction p) simp_all

lemma sub_at_match:
  assumes "match_here s = Some (g1, g2, rest)"
  shows "RE_M3U8_TO_MP3_sub s = g1 @ ''/'' @ g2 @ ''.mp3'' @ RE_M3U8_TO_MP3_sub rest"
proof (cases s)
  case Nil
  with assms show ?thesis by (simp add: match_here_def)
next
  case (Cons c cs)
  with assms show ?thesis by simp
qed

lemma contains_suffix: "contains n s \<Longrightarrow> contains n (p @ s)"
  by (induction p) simp_all

text \<open>
  Claim C4, as the code has it. With the toggle enabled, the leftmost match of the
  pattern in a URL is replaced by group 1 (\<^verbatim>\<open>/audios\<close> when present), a slash, group 2
  and \<^verbatim>\<open>.mp3\<close>: for every prefix \<open>p\<close> in which no match begins and every rest \<open>q\<close>,
  \<^verbatim>\<open>p/<hex1>/audios/<hex2>/index.m3u8q\<close> becomes \<^verbatim>\<open>p/audios/<hex2>.mp3\<close> followed by
  the rewrite of \<open>q\<close>, and \<^verbatim>\<open>p/<hex1>/<hex2>/index.m3u8q\<close> becomes \<^verbatim>\<open>p/<hex2>.mp3\<close>
  followed by the rewrite of \<open>q\<close>. So the first hex segment is the one that is dropped,
  \<^verbatim>\<open>/audios\<close> is kept, and the text around the match is kept. With the toggle
  disabled, or when the pattern matches nowhere in the URL, the URL is unchanged.
\<close>

theorem convert_link_rewrites:
  assumes "\<forall>c\<in>set h1. is_hex c" and "h1 \<noteq> []" and "\<forall>c\<in>set h2. is_hex c" and "h2 \<noteq> []"
  shows "(no_match_begins p (CHR ''/'' # h1 @ ''/audios/'' @ h2 @ ''/index.m3u8'' @ q) \<longrightarrow>
            convert_link True (p @ CHR ''/'' # h1 @ ''/audios/'' @ h2 @ ''/index.m3u8'' @ q) =
              p @ ''/audios/'' @ h2 @ ''.mp3'' @ RE_M3U8_TO_MP3_sub q) \<and>
         (no_match_begins p (CHR ''/'' # h1 @ CHR ''/'' # h2 @ ''/index.m3u8'' @ q) \<longrightarrow>
            convert_link True (p @ CHR ''/'' # h1 @ CHR ''/'' # h2 @ ''/index.m3u8'' @ q) =
              p @ CHR ''/'' # h2 @ ''.mp3'' @ RE_M3U8_TO_MP3_sub q) \<and>
         convert_link False link = link \<and>
         (\<not> RE_M3U8_TO_MP3_search link \<longrightarrow> convert_link True link = link)"
proof -
  let ?a = "CHR ''/'' # h1 @ ''/audios/'' @ h2 @ ''/index.m3u8'' @ q"
  let ?b = "CHR ''/'' # h1 @ CHR ''/'' # h2 @ ''/index.m3u8'' @ q"
  have ca: "contains ''m3u8'' (p @ ?a)"
    using contains_append [of "''m3u8''" "CHR ''/'' # h1 @ ''/audios/'' @ h2 @ ''/index.''" q]
    by (intro contains_suffix) simp
  have cb: "contains ''m3u8'' (p @ ?b)"
    using contains_append [of "''m3u8''" "CHR ''/'' # h1 @ CHR ''/'' # h2 @ ''/index.''" q]
    by (intro contains_suffix) simp
  have sa: "RE_M3U8_TO_MP3_sub ?a = ''/audios/'' @ h2 @ ''.mp3'' @ RE_M3U8_TO_MP3_sub q"
    using sub_at_match [OF match_here_audios [OF assms, of q]] by simp
  have sb: "RE_M3U8_TO_MP3_sub ?b = CHR ''/'' # h2 @ ''.mp3'' @ RE_M3U8_TO_MP3_sub q"
    using sub_at_match [OF match_here_plain [OF assms, of q]] by simp
  have "no_match_begins p ?a \<longrightarrow>
      convert_link True (p @ ?a) = p @ ''/audios/'' @ h2 @ ''.mp3'' @ RE_M3U8_TO_MP3_sub q"
    using ca sa by (simp add: convert_link_def sub_skips_prefix)
  moreover have "no_match_begins p ?b \<longrightarrow>
      convert_link True (p @ ?b) = p @ CHR ''/'' # h2 @ ''.mp3'' @ RE_M3U8_TO_MP3_sub q"
    using cb sb by (simp add: convert_link_def sub_skips_prefix)
  moreover have "convert_link False link = link" by (simp add: convert_link_def)
  moreover have "\<not> RE_M3U8_TO_MP3_search link \<longrightarrow> convert_link True link = link"
    by (simp add: convert_link_def sub_no_match)
  ultimately show ?thesis by blast
qed

theorem convert_link_rewrites_witness:
  "convert_link True
     ''https://cs1-50v4.vkuseraudio.net/p1/0123abc/audios/4567def/index.m3u8?extra=abc'' =
     ''https://cs1-50v4.vkuseraudio.net/p1/audios/4567def.mp3?extra=abc'' \<and>
   convert_link True
     ''https://cs1-50v4.vkuseraudio.net/p1/0123abc/4567def/index.m3u8?extra=abc'' =
     ''https://cs1-50v4.vkuseraudio.net/p1/4567def.mp3?extra=abc'' \<and>
   convert_link False ''/ABC/def/index.m3u8'' = ''/ABC/def/index.m3u8'' \<and>
   convert_link True ''/ABC/def/index.m3u8'' = ''/ABC/def/index.m3u8''"
proof -
  have h1: "\<forall>c\<in>set ''0123abc''. is_hex c" and h2: "\<forall>c\<in>set ''4567def''. is_hex c"
    by (simp_all add: is_hex_def)
  have pa: "no_match_begins ''https://cs1-50v4.vkuseraudio.net/p1''
      (CHR ''/'' # ''0123abc'' @ ''/audios/'' @ ''4567def'' @ ''/index.m3u8'' @ ''?extra=abc'')"
    by (simp add: match_here_def match_tail_def is_hex_def)
  have pb: "no_match_begins ''https://cs1-50v4.vkuseraudio.net/p1''
      (CHR ''/'' # ''0123abc'' @ CHR ''/'' # ''4567def'' @ ''/index.m3u8'' @ ''?extra=abc'')"
    by (simp add: match_here_def match_tail_def is_hex_def)
  have q: "RE_M3U8_TO_MP3_sub ''?extra=abc'' = ''?extra=abc''"
    by (simp add: match_here_def match_tail_def is_hex_def)
  have n: "\<not> RE_M3U8_TO_MP3_search ''/ABC/def/index.m3u8''"
    by (simp add: match_here_def match_tail_def is_hex_def)
  from convert_link_rewrites [OF h1 _ h2, of "''https://cs1-50v4.vkuseraudio.net/p1''"
      "''?extra=abc''" "''/ABC/def/index.m3u8''"] pa pb q n
  show ?thesis by simp
qed

text \<open>The documented example does not give \<^verbatim>\<open>/abc123/def456.mp3\<close>.\<close>

theorem convert_link_documented_example_counterexample:
  "convert_link True ''/abc123/audios/def456/index.m3u8'' \<noteq> ''/abc123/def456.mp3''"
  by (simp add: convert_link_def match_here_def match_tail_def is_hex_def)


section \<open>Properties of the batch resolver\<close>

lemma py_range_stop: "\<not> (i < n \<and> 0 < s) \<Longrightarrow> py_range i n s = []"
  by (subst py_range.simps) simp

lemma py_range_go: "i < n \<Longrightarrow> 0 < s \<Longrightarrow> py_range i n s = i # py_range (i + s) n s"
  by (subst py_range.simps) simp

lemma py_range_shift: "py_range (i + d) (n + d) s = map (\<lambda>k. k + d) (py_range i n s)"
proof (induction i n s rule: py_range.induct)
  case (1 i n step)
  show ?case
  proof (cases "i < n \<and> 0 < step")
    case True
    then have "py_range (i + d) (n + d) step = (i + d) # py_range (i + d + step) (n + d) step"
      by (intro py_range_go) simp_all
    also have "i + d + step = i + step + d" by simp
    also have "(i + d) # py_range (i + step + d) (n + d) step =
        (i + d) # map (\<lambda>k. k + d) (py_range (i + step) n step)"
      using "1.IH" True by simp
    also have "\<dots> = map (\<lambda>k. k + d) (py_range i n step)"
      using True by (simp add: py_range_go [of i n step])
    finally show ?thesis .
  next
    case False
    then have "py_range (i + d) (n + d) step = []" by (intro py_range_stop) simp
    moreover from False have "py_range i n step = []" by (rule py_range_stop)
    ultimately show ?thesis by simp
  qed
qed

lemma py_range_10: "0 < n \<Longrightarrow> py_range 0 n 10 = 0 # map (\<lambda>k. k + 10) (py_range 0 (n - 10) 10)"
proof -
  assume n: "0 < n"
  have "py_range 10 n 10 = map (\<lambda>k. k + 10) (py_range 0 (n - 10) 10)"
  proof (cases "10 \<le> n")
    case True
    then show ?thesis using py_range_shift [of 0 10 "n - 10" 10] by simp
  next
    case False
    then have "py_range 10 n 10 = []" by (intro py_range_stop) simp
    moreover from False have "py_range 0 (n - 10) 10 = []" by (intro py_range_stop) simp
    ultimately show ?thesis by simp
  qed
  moreover from n have "py_range 0 n 10 = 0 # py_range (0 + 10) n 10"
    by (intro py_range_go) simp_all
  ultimately show ?thesis by simp
qed

lemma ids_groups_Nil [simp]: "ids_groups [] = []"
  by (simp add: ids_groups_def py_range_stop)

lemma ids_groups_rec:
  assumes "ids \<noteq> []"
  shows "ids_groups ids = take 10 ids # ids_groups (drop 10 ids)"
proof -
  from assms have n: "0 < length ids" by simp
  have "ids_groups ids =
        map (\<lambda>i. py_slice ids i (i + 10)) (0 # map (\<lambda>k. k + 10) (py_range 0 (length ids - 10) 10))"
    unfolding ids_groups_def by (simp only: py_range_10 [OF n])
  also have "\<dots> = py_slice ids 0 10 #
        map (\<lambda>i. py_slice ids (i + 10) (i + 10 + 10)) (py_range 0 (length ids - 10) 10)"
    by (simp add: o_def)
  also have "py_slice ids 0 10 = take 10 ids" by (simp add: py_slice_def)
  also have "(\<lambda>i. py_slice ids (i + 10) (i + 10 + 10)) = (\<lambda>i. py_slice (drop 10 ids) i (i + 10))"
    by (rule ext) (simp add: py_slice_def add.commute)
  also have "map (\<lambda>i. py_slice (drop 10 ids) i (i + 10)) (py_range 0 (length ids - 10) 10) =
        ids_groups (drop 10 ids)"
    by (simp add: ids_groups_def)
  finally show ?thesis .
qed

lemma ceil10_step: "0 < (n::nat) \<Longrightarrow> Suc ((n - 10 + 9) div 10) = (n + 9) div 10"
proof (cases "10 \<le> n")
  case True
  then obtain m where "n = m + 10" by (metis le_add_diff_inverse2)
  then show ?thesis by simp
next
  case False
  assume "0 < n"
  with False have "n - 10 = 0" and "(n + 9) div 10 = 1" by simp_all
  then show ?thesis by simp
qed


lemma sleep_simps [simp]:
  "sent (sleep d w) = sent w" "clock (sleep d w) = clock w + d"
  "n_reload (sleep d w) = n_reload w" "n_page (sleep d w) = n_page w"
  by (simp_all add: sleep_def)

lemma consumed_simps [simp]:
  "sent (consumed h n w) = sent w" "clock (consumed h n w) = clock w + think h n"
  "n_reload (consumed h n w) = n_reload w" "n_page (consumed h n w) = n_page w"
  by (simp_all add: consumed_def)

lemma post_reload_audio_simps [simp]:
  "fst (post_reload_audio h p w) = reload_audio h (n_reload w)"
  "sent (snd (post_reload_audio h p w)) = sent w @ [(clock w, ReloadAudio p)]"
  "clock (snd (post_reload_audio h p w)) = clock w + latency h (length (sent w))"
  "n_reload (snd (post_reload_audio h p w)) = Suc (n_reload w)"
  "n_page (snd (post_reload_audio h p w)) = n_page w"
  by (simp_all add: post_reload_audio_def post_def)

lemma paced_simps [simp]:
  "sent (paced lr w) = sent w" "n_reload (paced lr w) = n_reload w"
  "n_page (paced lr w) = n_page w"
  by (simp_all add: paced_def)

lemma clock_paced: "clock (paced lr w) = max (clock w) (lr + RPS_DELAY_RELOAD_AUDIO)"
  by (simp add: paced_def max_def)

lemma after_request_simps [simp]:
  "sent (after_request h g lr w) = sent w @ [(clock (paced lr w), ReloadAudio (ids_payload g))]"
  "n_reload (after_request h g lr w) = Suc (n_reload w)"
  "n_page (after_request h g lr w) = n_page w"
  "clock (after_request h g lr w) = clock (paced lr w) + latency h (length (sent w))"
  by (simp_all add: after_request_def)

lemma next_round_simps [simp]:
  "sent (next_round h g lr w) = sent w @ [(clock (paced lr w), ReloadAudio (ids_payload g))]"
  "n_reload (next_round h g lr w) = Suc (n_reload w)"
  "n_page (next_round h g lr w) = n_page w"
  "clock (next_round h g lr w) =
     clock (paced lr w) + latency h (length (sent w)) + think h (n_reload w)"
  by (simp_all add: next_round_def)

lemma scrap_tracks_loop_Cons:
  "scrap_tracks_loop c h u cv lr (g # rest) w =
     (let got = reload_result_tracks c u cv (reload_audio h (n_reload w))
      in case snd got of
           Some e \<Rightarrow> \<lparr>yielded = fst got, raised = Some e, after = after_request h g lr w\<rparr>
         | None \<Rightarrow>
             (let r = scrap_tracks_loop c h u cv (clock (after_request h g lr w)) rest
                        (next_round h g lr w)
              in r\<lparr>yielded := fst got @ yielded r\<rparr>))"
  by (simp add: Let_def paced_def after_request_def next_round_def split: option.split)

declare scrap_tracks_loop.simps(2) [simp del]

lemma after_loop_Cons:
  "after (scrap_tracks_loop c h u cv lr (g # rest) w) =
     (case snd (reload_result_tracks c u cv (reload_audio h (n_reload w))) of
        Some e \<Rightarrow> after_request h g lr w
      | None \<Rightarrow> after (scrap_tracks_loop c h u cv (clock (after_request h g lr w)) rest
                       (next_round h g lr w)))"
  by (simp add: scrap_tracks_loop_Cons Let_def split: option.split)

lemma raised_loop_Cons:
  "raised (scrap_tracks_loop c h u cv lr (g # rest) w) =
     (case snd (reload_result_tracks c u cv (reload_audio h (n_reload w))) of
        Some e \<Rightarrow> Some e
      | None \<Rightarrow> raised (scrap_tracks_loop c h u cv (clock (after_request h g lr w)) rest
                       (next_round h g lr w)))"
  by (simp add: scrap_tracks_loop_Cons Let_def split: option.split)

lemma yielded_loop_Cons:
  "yielded (scrap_tracks_loop c h u cv lr (g # rest) w) =
     fst (reload_result_tracks c u cv (reload_audio h (n_reload w))) @
     (case snd (reload_result_tracks c u cv (reload_audio h (n_reload w))) of
        Some e \<Rightarrow> []
      | None \<Rightarrow> yielded (scrap_tracks_loop c h u cv (clock (after_request h g lr w)) rest
                       (next_round h g lr w)))"
  by (simp add: scrap_tracks_loop_Cons Let_def split: option.split)

lemma loop_sent:
  "\<exists>news. sent (after (scrap_tracks_loop c h u cv lr gs w)) = sent w @ news \<and>
     length news \<le> length gs \<and>
     map snd news = map (\<lambda>g. ReloadAudio (ids_payload g)) (take (length news) gs) \<and>
     (raised (scrap_tracks_loop c h u cv lr gs w) = None \<longrightarrow> length news = length gs)"
proof (induction gs arbitrary: lr w)
  case Nil
  then show ?case by simp
next
  case (Cons g rest)
  let ?w2 = "after_request h g lr w"
  let ?w3 = "next_round h g lr w"
  let ?r = "scrap_tracks_loop c h u cv (clock ?w2) rest ?w3"
  let ?err = "snd (reload_result_tracks c u cv (reload_audio h (n_reload w)))"
  let ?e = "(clock (paced lr w), ReloadAudio (ids_payload g))"
  show ?case
  proof (cases ?err)
    case (Some e)
    then have "sent (after (scrap_tracks_loop c h u cv lr (g # rest) w)) = sent w @ [?e]"
      and "raised (scrap_tracks_loop c h u cv lr (g # rest) w) = Some e"
      by (simp_all add: after_loop_Cons raised_loop_Cons)
    then show ?thesis by (intro exI [of _ "[?e]"]) simp
  next
    case None
    from Cons.IH [where lr = "clock ?w2" and w = ?w3] obtain news where
      n1: "sent (after ?r) = sent ?w3 @ news" and n2: "length news \<le> length rest" and
      n3: "map snd news = map (\<lambda>g. ReloadAudio (ids_payload g)) (take (length news) rest)" and
      n4: "raised ?r = None \<longrightarrow> length news = length rest"
      by (elim exE conjE)
    from None n1 have "sent (after (scrap_tracks_loop c h u cv lr (g # rest) w)) = sent w @ ?e # news"
      by (simp add: after_loop_Cons)
    moreover from None have "raised (scrap_tracks_loop c h u cv lr (g # rest) w) = raised ?r"
      by (simp add: raised_loop_Cons)
    ultimately show ?thesis
      using n2 n3 n4 by (intro exI [of _ "?e # news"]) simp
  qed
qed

lemma loop_pacing:
  assumes lat: "\<forall>n. 0 \<le> latency h n" and thk: "\<forall>n. 0 \<le> think h n"
  shows "\<exists>news. sent (after (scrap_tracks_loop c h u cv lr gs w)) = sent w @ news \<and>
     successively (\<lambda>a b. fst a + RPS_DELAY_RELOAD_AUDIO \<le> fst b) news \<and>
     (\<forall>e\<in>set news. lr + RPS_DELAY_RELOAD_AUDIO \<le> fst e)"
proof (induction gs arbitrary: lr w)
  case Nil
  then show ?case by simp
next
  case (Cons g rest)
  let ?w2 = "after_request h g lr w"
  let ?w3 = "next_round h g lr w"
  let ?r = "scrap_tracks_loop c h u cv (clock ?w2) rest ?w3"
  let ?err = "snd (reload_result_tracks c u cv (reload_audio h (n_reload w)))"
  let ?e = "(clock (paced lr w), ReloadAudio (ids_payload g))"
  have e: "lr + RPS_DELAY_RELOAD_AUDIO \<le> fst ?e" by (simp add: clock_paced)
  show ?case
  proof (cases ?err)
    case (Some x)
    then have "sent (after (scrap_tracks_loop c h u cv lr (g # rest) w)) = sent w @ [?e]"
      by (simp add: after_loop_Cons)
    with e show ?thesis by (intro exI [of _ "[?e]"]) simp
  next
    case None
    from Cons.IH [where lr = "clock ?w2" and w = ?w3] obtain news where
      n1: "sent (after ?r) = sent ?w3 @ news" and
      n2: "successively (\<lambda>a b. fst a + RPS_DELAY_RELOAD_AUDIO \<le> fst b) news" and
      n3: "\<forall>x\<in>set news. clock ?w2 + RPS_DELAY_RELOAD_AUDIO \<le> fst x"
      by (elim exE conjE)
    from lat have "fst ?e \<le> clock ?w2" by simp
    with n3 have n3': "\<forall>x\<in>set news. fst ?e + RPS_DELAY_RELOAD_AUDIO \<le> fst x" by fastforce
    have "RPS_DELAY_RELOAD_AUDIO \<ge> 0" by (simp add: RPS_DELAY_RELOAD_AUDIO_def)
    with n3' e have n3'': "\<forall>x\<in>set news. lr + RPS_DELAY_RELOAD_AUDIO \<le> fst x" by fastforce
    from None n1 have s: "sent (after (scrap_tracks_loop c h u cv lr (g # rest) w)) = sent w @ ?e # news"
      by (simp add: after_loop_Cons)
    have "successively (\<lambda>a b. fst a + RPS_DELAY_RELOAD_AUDIO \<le> fst b) (?e # news)"
      using n2 n3' by (cases news) simp_all
    with s e n3'' show ?thesis by (intro exI [of _ "?e # news"]) simp
  qed
qed

lemma ids_groups_closed:
  "ids_groups ids = map (\<lambda>k. take 10 (drop (10 * k) ids)) [0..<(length ids + 9) div 10]"
proof (induction "length ids" arbitrary: ids rule: less_induct)
  case less
  show ?case
  proof (cases "ids = []")
    case True
    then show ?thesis by simp
  next
    case False
    then have "length (drop 10 ids) < length ids" by simp
    from less [OF this]
    have ih: "ids_groups (drop 10 ids) =
        map (\<lambda>k. take 10 (drop (10 * k) (drop 10 ids))) [0..<(length ids - 10 + 9) div 10]"
      by simp
    from False have "0 < length ids" by simp
    then have ar: "(length ids + 9) div 10 = Suc ((length ids - 10 + 9) div 10)"
      by (simp add: ceil10_step)
    have "map (\<lambda>k. take 10 (drop (10 * k) ids)) [0..<Suc ((length ids - 10 + 9) div 10)] =
        take 10 ids # map (\<lambda>k. take 10 (drop (10 * Suc k) ids)) [0..<(length ids - 10 + 9) div 10]"
      by (simp only: map_upt_Suc) simp
    also have "(\<lambda>k. take 10 (drop (10 * Suc k) ids)) = (\<lambda>k. take 10 (drop (10 * k) (drop 10 ids)))"
      by (rule ext) (simp add: add.commute)
    finally show ?thesis
      using ih ids_groups_rec [OF False] ar by simp
  qed
qed

lemma issued_loop:
  "\<exists>news. sent (after (scrap_tracks_loop c h u cv lr gs w)) = sent w @ news \<and>
      issued w (scrap_tracks_loop c h u cv lr gs w) = news"
  using loop_sent [of c h u cv lr gs w] by (auto simp: issued_def)


lemma twelve_groups:
  "ids_groups twelve_ids =
     [replicate 10 (''-12'', ''5'', ''c'', ''f''),
      [(''-12'', ''6'', ''c'', ''f''), (''7'', ''8'', ''x'', ''y'')]]"
  by (simp add: ids_groups_closed twelve_ids_def upt_conv_Cons)

lemma no_pages_simps [simp]:
  "reload_audio no_pages n = Null" "latency no_pages n = 1 / 4" "think no_pages n = 0"
  by (simp_all add: no_pages_def)

lemma no_data_simps [simp]:
  "reload_audio no_data n = Absent" "latency no_data n = 1 / 4" "think no_data n = 0"
  by (simp_all add: no_data_def no_pages_def)

lemma start_simps [simp]: "clock start = 100" "sent start = []" "n_reload start = 0"
  by (simp_all add: start_def)



text \<open>
  Claim C2. With a clock that does not run backwards (no POST and no consumer takes
  negative time), the requests of one \<^verbatim>\<open>scrap_tracks\<close> call start at least 1.5 seconds
  apart, and at least 1.5 seconds after the value of \<^verbatim>\<open>last_request\<close> the loop holds.
  The mechanism: the request of a group is sent at the later of the current time and
  \<^verbatim>\<open>last_request + 1.5\<close>, that is after a sleep for the remainder when less than 1.5
  seconds have passed; the loop goes on with \<^verbatim>\<open>last_request\<close> set to the time at which
  the response arrived.
\<close>

theorem scrap_tracks_pacing:
  assumes "\<forall>n. 0 \<le> latency h n" and "\<forall>n. 0 \<le> think h n"
  shows "successively (\<lambda>a b. fst a + RPS_DELAY_RELOAD_AUDIO \<le> fst b)
           (issued w (scrap_tracks c h ids u cv w)) \<and>
         successively (\<lambda>a b. fst a + RPS_DELAY_RELOAD_AUDIO \<le> fst b)
           (issued w (scrap_tracks_loop c h u cv lr gs w)) \<and>
         (\<forall>e\<in>set (issued w (scrap_tracks_loop c h u cv lr gs w)).
            lr + RPS_DELAY_RELOAD_AUDIO \<le> fst e) \<and>
         issued w (scrap_tracks_loop c h u cv lr (g # rest) w) =
           (max (clock w) (lr + RPS_DELAY_RELOAD_AUDIO), ReloadAudio (ids_payload g)) #
           (case snd (reload_result_tracks c u cv (reload_audio h (n_reload w))) of
              Some e \<Rightarrow> []
            | None \<Rightarrow>
                issued (next_round h g lr w)
                  (scrap_tracks_loop c h u cv
                     (max (clock w) (lr + RPS_DELAY_RELOAD_AUDIO) + latency h (length (sent w)))
                     rest (next_round h g lr w))) \<and>
         clock (next_round h g lr w) =
           max (clock w) (lr + RPS_DELAY_RELOAD_AUDIO) + latency h (length (sent w)) +
           think h (n_reload w)"
proof -
  have pace: "successively (\<lambda>a b. fst a + RPS_DELAY_RELOAD_AUDIO \<le> fst b)
           (issued w (scrap_tracks_loop c h u cv lr gs w)) \<and>
         (\<forall>e\<in>set (issued w (scrap_tracks_loop c h u cv lr gs w)).
            lr + RPS_DELAY_RELOAD_AUDIO \<le> fst e)" for lr gs
    using loop_pacing [OF assms, of c u cv lr gs w] by (auto simp: issued_def)
  have step: "issued w (scrap_tracks_loop c h u cv lr (g # rest) w) =
           (max (clock w) (lr + RPS_DELAY_RELOAD_AUDIO), ReloadAudio (ids_payload g)) #
           (case snd (reload_result_tracks c u cv (reload_audio h (n_reload w))) of
              Some e \<Rightarrow> []
            | None \<Rightarrow>
                issued (next_round h g lr w)
                  (scrap_tracks_loop c h u cv
                     (max (clock w) (lr + RPS_DELAY_RELOAD_AUDIO) + latency h (length (sent w)))
                     rest (next_round h g lr w)))"
  proof (cases "snd (reload_result_tracks c u cv (reload_audio h (n_reload w)))")
    case (Some e)
    then show ?thesis by (simp add: issued_def after_loop_Cons clock_paced)
  next
    case None
    let ?w3 = "next_round h g lr w"
    let ?r = "scrap_tracks_loop c h u cv (clock (after_request h g lr w)) rest ?w3"
    from loop_sent [of c h u cv "clock (after_request h g lr w)" rest ?w3]
    obtain news where n: "sent (after ?r) = sent ?w3 @ news" by (elim exE conjE)
    then have "issued ?w3 ?r = news" by (simp add: issued_def)
    moreover from n None have "issued w (scrap_tracks_loop c h u cv lr (g # rest) w) =
        (clock (paced lr w), ReloadAudio (ids_payload g)) # news"
      by (simp add: issued_def after_loop_Cons)
    ultimately show ?thesis using None by (simp add: clock_paced)
  qed
  from pace [of 0 "ids_groups ids"] pace [of lr gs] step show ?thesis
    by (simp add: scrap_tracks_def clock_paced)
qed

lemma times_twelve:
  "map fst (issued start (scrap_tracks echo_collab no_pages twelve_ids 7 True start)) =
     [100, 407 / 4]"
  by (simp add: scrap_tracks_def twelve_groups issued_def after_loop_Cons
      reload_result_tracks_def clock_paced RPS_DELAY_RELOAD_AUDIO_def)

theorem scrap_tracks_pacing_witness:
  "successively (\<lambda>a b. fst a + RPS_DELAY_RELOAD_AUDIO \<le> fst b)
     (issued start (scrap_tracks echo_collab no_pages twelve_ids 7 True start)) \<and>
   map fst (issued start (scrap_tracks echo_collab no_pages twelve_ids 7 True start)) =
     [100, 407 / 4]"
proof -
  have l: "\<forall>n. 0 \<le> latency no_pages n" and t: "\<forall>n. 0 \<le> think no_pages n" by simp_all
  from scrap_tracks_pacing [OF l t, of start echo_collab twelve_ids 7 True 0 "[]" "[]" "[]"]
    times_twelve
  show ?thesis by blast
qed

text \<open>
  Claim C7, as the code has it. When \<^verbatim>\<open>result['data']\<close> of a group's response is
  present and falsy (\<^verbatim>\<open>null\<close> or an empty array), the group yields no track and raises
  nothing: the loop continues with the remaining groups exactly as after any other
  response, its request having been sent. When the key \<^verbatim>\<open>data\<close> is missing, the
  subscript raises \<^verbatim>\<open>KeyError\<close>, which ends the generator after this request.
\<close>

theorem falsy_envelope_skipped:
  "(reload_audio h (n_reload w) = Null \<or> reload_audio h (n_reload w) = Arr [] \<longrightarrow>
      scrap_tracks_loop c h u cv lr (g # rest) w =
        scrap_tracks_loop c h u cv (clock (after_request h g lr w)) rest (next_round h g lr w) \<and>
      sent (next_round h g lr w) =
        sent w @ [(max (clock w) (lr + RPS_DELAY_RELOAD_AUDIO), ReloadAudio (ids_payload g))] \<and>
      n_reload (next_round h g lr w) = Suc (n_reload w)) \<and>
   (reload_audio h (n_reload w) = Absent \<longrightarrow>
      scrap_tracks_loop c h u cv lr (g # rest) w =
        \<lparr>yielded = [], raised = Some KeyError, after = after_request h g lr w\<rparr> \<and>
      sent (after_request h g lr w) =
        sent w @ [(max (clock w) (lr + RPS_DELAY_RELOAD_AUDIO), ReloadAudio (ids_payload g))])"
  by (auto simp: scrap_tracks_loop_Cons reload_result_tracks_def clock_paced)

theorem falsy_envelope_skipped_witness:
  "scrap_tracks echo_collab no_pages twelve_ids 7 True start =
     \<lparr>yielded = [], raised = None,
      after = \<lparr>clock = 102,
               sent = [(100, ReloadAudio (ids_payload (replicate 10 (''-12'', ''5'', ''c'', ''f'')))),
                       (407 / 4, ReloadAudio ''-12_6_c_f,7_8_x_y'')],
               n_reload = 2, n_page = 0\<rparr>\<rparr>"
proof -
  let ?g1 = "replicate 10 (''-12'', ''5'', ''c'', ''f'')"
  let ?g2 = "[(''-12'', ''6'', ''c'', ''f''), (''7'', ''8'', ''x'', ''y'')]"
  let ?w1 = "next_round no_pages ?g1 0 start"
  let ?l1 = "clock (after_request no_pages ?g1 0 start)"
  let ?w2 = "next_round no_pages ?g2 ?l1 ?w1"
  let ?l2 = "clock (after_request no_pages ?g2 ?l1 ?w1)"
  have a: "reload_audio no_pages (n_reload start) = Null \<or>
      reload_audio no_pages (n_reload start) = Arr []" by simp
  have b: "reload_audio no_pages (n_reload ?w1) = Null \<or>
      reload_audio no_pages (n_reload ?w1) = Arr []" by simp
  from falsy_envelope_skipped [of no_pages start echo_collab 7 True 0 ?g1 "[?g2]"] a
  have 1: "scrap_tracks_loop echo_collab no_pages 7 True 0 [?g1, ?g2] start =
      scrap_tracks_loop echo_collab no_pages 7 True ?l1 [?g2] ?w1" by blast
  from falsy_envelope_skipped [of no_pages ?w1 echo_collab 7 True ?l1 ?g2 "[]"] b
  have 2: "scrap_tracks_loop echo_collab no_pages 7 True ?l1 [?g2] ?w1 =
      scrap_tracks_loop echo_collab no_pages 7 True ?l2 [] ?w2" by blast
  have 3: "?w2 = \<lparr>clock = 102,
               sent = [(100, ReloadAudio (ids_payload ?g1)),
                       (407 / 4, ReloadAudio ''-12_6_c_f,7_8_x_y'')],
               n_reload = 2, n_page = 0\<rparr>"
    by (simp add: next_round_def after_request_def consumed_def post_reload_audio_def post_def
        paced_def sleep_def start_def RPS_DELAY_RELOAD_AUDIO_def ids_payload_def)
  show ?thesis
    unfolding scrap_tracks_def twelve_groups 1 2 3 by simp
qed

text \<open>A response without the key \<^verbatim>\<open>data\<close>: the first of two groups raises, and the
  second is never requested.\<close>

theorem missing_data_key_raises_counterexample:
  "raised (scrap_tracks echo_collab no_data twelve_ids 7 True start) = Some KeyError \<and>
   map snd (sent (after (scrap_tracks echo_collab no_data twelve_ids 7 True start))) =
     [ReloadAudio (ids_payload (replicate 10 (''-12'', ''5'', ''c'', ''f'')))]"
  by (simp add: scrap_tracks_def twelve_groups raised_loop_Cons after_loop_Cons
      reload_result_tracks_def)


section \<open>Properties of the pagination drivers\<close>

lemma iterate_Done: "body s = Done r \<Longrightarrow> iterate body s = Some r"
  by (subst iterate.simps) simp

lemma iterate_Continue: "body s = Continue s' \<Longrightarrow> iterate body s = iterate body s'"
  by (subst iterate.simps) simp

lemma post_simps [simp]:
  "sent (post h r w) = sent w @ [(clock w, r)]"
  "clock (post h r w) = clock w + latency h (length (sent w))"
  "n_reload (post h r w) = n_reload w" "n_page (post h r w) = n_page w"
  by (simp_all add: post_def)

lemma post_load_section_simps [simp]:
  "fst (post_load_section h r w) = load_section h (n_page w)"
  "sent (snd (post_load_section h r w)) = sent w @ [(clock w, r)]"
  "n_page (snd (post_load_section h r w)) = Suc (n_page w)"
  "n_reload (snd (post_load_section h r w)) = n_reload w"
  by (simp_all add: post_load_section_def)

lemma post_catalog_simps [simp]:
  "fst (post_catalog h r w) = catalog_section h (n_page w)"
  "sent (snd (post_catalog h r w)) = sent w @ [(clock w, r)]"
  "n_page (snd (post_catalog h r w)) = Suc (n_page w)"
  "n_reload (snd (post_catalog h r w)) = n_reload w"
  by (simp_all add: post_catalog_def)

lemma post_news_simps [simp]:
  "fst (post_news h r w) = news_section h (n_page w)"
  "sent (snd (post_news h r w)) = sent w @ [(clock w, r)]"
  "n_page (snd (post_news h r w)) = Suc (n_page w)"
  "n_reload (snd (post_news h r w)) = n_reload w"
  by (simp_all add: post_news_def)

lemma n_page_loop [simp]: "n_page (after (scrap_tracks_loop c h u cv lr gs w)) = n_page w"
  by (induction gs arbitrary: lr w) (simp_all add: after_loop_Cons split: option.split)

lemma yield_tracks_simps [simp]:
  "n_page (after (yield_tracks c h self ids w)) = n_page w"
  "yielded (yield_tracks c h self ids w) =
     map TrackItem (yielded (scrap_tracks c h ids (user_id self) (convert_m3u8_links self) w))"
  "raised (yield_tracks c h self ids w) =
     raised (scrap_tracks c h ids (user_id self) (convert_m3u8_links self) w)"
  "after (yield_tracks c h self ids w) =
     after (scrap_tracks c h ids (user_id self) (convert_m3u8_links self) w)"
  by (simp_all add: yield_tracks_def Let_def scrap_tracks_def)

lemma yield_raw_simps [simp]:
  "after (yield_raw c records w) = w"
  "yielded (yield_raw c records w) = map RawItem (fst (yield_each (raw_item c) records))"
  "raised (yield_raw c records w) = snd (yield_each (raw_item c) records)"
  by (simp_all add: yield_raw_def split: prod.split)


lemmas run_defs =
  iterate.simps Let_def post_load_section_def post_catalog_def post_news_def post_def
  scrap_ids_def full_id_of_def record_with_def numbered_def resolved_def py_index_def ebind_def
  AT_defs all_truthy_def int_str_def nat_digits.simps digit_char_def yield_tracks_def yield_raw_def
  raw_item_def track_of_def convert_link_def
  scrap_tracks_def ids_groups_closed upt_conv_Cons scrap_tracks_loop_Cons reload_result_tracks_def
  next_round_def after_request_def consumed_def post_reload_audio_def paced_def sleep_def
  ids_payload_def RPS_DELAY_RELOAD_AUDIO_def TRACKS_PER_USER_PAGE_def TRACKS_PER_ALBUM_PAGE_def
  no_pages_def echo_collab_def me_def start_def

text \<open>
  Claim C5. On a listing whose first page has tracks and reports more pages and whose
  second page reports none, the driver in its default mode sends the offsets 0 and 4000:
  the offset is advanced at the end of the round (audio.py:190-191) and again at the head
  of the next (audio.py:146-147). In raw mode, whose round ends in \<^verbatim>\<open>continue\<close>, it
  sends 0 and 2000.
\<close>

theorem get_iter_offsets_example:
  "map_option (\<lambda>r. section_offsets (sent (after r)))
     (get_iter echo_collab two_pages me PNone PNone PNone False start) = Some [0, 4000] \<and>
   map_option (\<lambda>r. section_offsets (sent (after r)))
     (get_iter echo_collab two_pages me PNone PNone PNone True start) = Some [0, 2000]"
  by (simp add: get_iter_def get_iter_body_def two_pages_def run_defs)

lemma search_example:
  "search_iter echo_collab search_pages me ''q'' 7 False GLOBAL_AUDIOS start =
     Some \<lparr>yielded = map (\<lambda>l. TrackItem
                \<lparr>track_id = PInt 5, track_owner_id = PInt (- 12), track_covers = [''c1'', ''c2''],
                 track_url = l, track_artist = ''Artist'', track_title = ''Title'',
                 track_duration = PInt 180\<rparr>) [''u8'', ''u9'', ''u10''],
           raised = None,
           after = \<lparr>clock = 101,
                    sent = [(100, SectionSearch (PInt 7) ''q''),
                            (401 / 4, LoadCatalogSection (PStr ''s'') (PStr ''n1'')),
                            (201 / 2, ReloadAudio ''1_8_c_f,1_9_c_f,1_10_c_f''),
                            (403 / 4, LoadCatalogSection (PStr ''s'') (PStr ''n2''))],
                    n_reload = 1, n_page = 3\<rparr>\<rparr>"
  by (simp add: search_iter_def search_iter_body_def search_page_def page_ids_def
      search_pages_def run_defs)

text \<open>
  One round of \<^verbatim>\<open>search_iter\<close> on a page with a non-empty identity list. When the
  running total with this page stays below the offset, the page yields nothing, no
  resolving request is sent, its identities are all added to the running total and the
  next page is requested. When the running total is below the offset and reaches it with
  this page, exactly the identities past the offset are resolved and yielded, and only
  those are added to the running total. With two pages of 5 identities each and offset 7,
  the first page yields nothing and the second page resolves and yields its last 3.
\<close>

theorem search_offset_bookkeeping:
  assumes "py_index (playlists (si_json_response s)) desired_index = Inr (Some pl)"
    and "scrap_ids (playlist_list pl) = Inr ids" and "ids \<noteq> []"
  shows
   "(si_offset_left s + int (length ids) < offset \<longrightarrow>
       search_iter_body c h self offset raw desired_index s =
         (let posted = post_catalog h
                (LoadCatalogSection (sectionId (si_json_response s))
                   (nextFrom (si_json_response s))) (si_world s)
          in Continue \<lparr>si_offset_left = si_offset_left s + int (length ids),
                       si_json_response = fst posted, si_world = snd posted,
                       si_yielded = si_yielded s\<rparr>)) \<and>
    (si_offset_left s < offset \<and> offset \<le> si_offset_left s + int (length ids) \<longrightarrow>
       search_iter_body c h self offset False desired_index s =
         (let tail = drop (nat (offset - si_offset_left s)) ids;
              y = yield_tracks c h self tail (si_world s)
          in case raised y of
               Some e \<Rightarrow>
                 Done \<lparr>yielded = si_yielded s @ yielded y, raised = Some e, after = after y\<rparr>
             | None \<Rightarrow>
                 (let posted = post_catalog h
                        (LoadCatalogSection (sectionId (si_json_response s))
                           (nextFrom (si_json_response s))) (after y)
                  in Continue \<lparr>si_offset_left = si_offset_left s + int (length tail),
                               si_json_response = fst posted, si_world = snd posted,
                               si_yielded = si_yielded s @ yielded y\<rparr>))) \<and>
    search_iter echo_collab search_pages me ''q'' 7 False GLOBAL_AUDIOS start =
      Some \<lparr>yielded = map (\<lambda>l. TrackItem
                \<lparr>track_id = PInt 5, track_owner_id = PInt (- 12), track_covers = [''c1'', ''c2''],
                 track_url = l, track_artist = ''Artist'', track_title = ''Title'',
                 track_duration = PInt 180\<rparr>) [''u8'', ''u9'', ''u10''],
            raised = None,
            after = \<lparr>clock = 101,
                     sent = [(100, SectionSearch (PInt 7) ''q''),
                             (401 / 4, LoadCatalogSection (PStr ''s'') (PStr ''n1'')),
                             (201 / 2, ReloadAudio ''1_8_c_f,1_9_c_f,1_10_c_f''),
                             (403 / 4, LoadCatalogSection (PStr ''s'') (PStr ''n2''))],
                     n_reload = 1, n_page = 3\<rparr>\<rparr>"
proof -
  have a: "si_offset_left s + int (length ids) < offset \<longrightarrow>
       search_iter_body c h self offset raw desired_index s =
         (let posted = post_catalog h
                (LoadCatalogSection (sectionId (si_json_response s))
                   (nextFrom (si_json_response s))) (si_world s)
          in Continue \<lparr>si_offset_left = si_offset_left s + int (length ids),
                       si_json_response = fst posted, si_world = snd posted,
                       si_yielded = si_yielded s\<rparr>)"
    using assms by (simp add: search_iter_body_def search_page_def page_ids_def Let_def)
  have b: "si_offset_left s < offset \<and> offset \<le> si_offset_left s + int (length ids) \<longrightarrow>
       search_iter_body c h self offset False desired_index s =
         (let tail = drop (nat (offset - si_offset_left s)) ids;
              y = yield_tracks c h self tail (si_world s)
          in case raised y of
               Some e \<Rightarrow>
                 Done \<lparr>yielded = si_yielded s @ yielded y, raised = Some e, after = after y\<rparr>
             | None \<Rightarrow>
                 (let posted = post_catalog h
                        (LoadCatalogSection (sectionId (si_json_response s))
                           (nextFrom (si_json_response s))) (after y)
                  in Continue \<lparr>si_offset_left = si_offset_left s + int (length tail),
                               si_json_response = fst posted, si_world = snd posted,
                               si_yielded = si_yielded s @ yielded y\<rparr>))"
    using assms
    by (simp add: search_iter_body_def search_page_def page_ids_def Let_def
        del: yield_tracks_simps split: option.split)
  from a b search_example show ?thesis by (intro conjI)
qed

lemma scrap_numbered:
  "scrap_ids (map numbered [1, 2, 3, 4, 5]) = Inr (numbered_ids [1, 2, 3, 4, 5])"
  "scrap_ids (map numbered [6, 7, 8, 9, 10]) = Inr (numbered_ids [6, 7, 8, 9, 10])"
  by (simp_all add: numbered_ids_def run_defs)

theorem search_offset_bookkeeping_witness:
  "search_iter_body echo_collab search_pages me 7 False 0 search_vars_1 = Continue search_vars_2 \<and>
   search_iter_body echo_collab search_pages me 7 False 0 search_vars_2 =
     Continue
       \<lparr>si_offset_left = 8, si_json_response = catalog_section search_pages 2,
        si_world = \<lparr>clock = 101,
                    sent = [(100, SectionSearch (PInt 7) ''q''),
                            (401 / 4, LoadCatalogSection (PStr ''s'') (PStr ''n1'')),
                            (201 / 2, ReloadAudio ''1_8_c_f,1_9_c_f,1_10_c_f''),
                            (403 / 4, LoadCatalogSection (PStr ''s'') (PStr ''n2''))],
                    n_reload = 1, n_page = 3\<rparr>,
        si_yielded = map (\<lambda>l. TrackItem
                \<lparr>track_id = PInt 5, track_owner_id = PInt (- 12), track_covers = [''c1'', ''c2''],
                 track_url = l, track_artist = ''Artist'', track_title = ''Title'',
                 track_duration = PInt 180\<rparr>) [''u8'', ''u9'', ''u10'']\<rparr>"
proof -
  let ?p1 = "\<lparr>playlist_type = ''search'', playlist_list = map numbered [1, 2, 3, 4, 5]\<rparr>"
  let ?p2 = "\<lparr>playlist_type = ''search'', playlist_list = map numbered [6, 7, 8, 9, 10]\<rparr>"
  have p1: "py_index (playlists (si_json_response search_vars_1)) 0 = Inr (Some ?p1)"
    by (simp add: search_vars_1_def search_pages_def py_index_def)
  have p2: "py_index (playlists (si_json_response search_vars_2)) 0 = Inr (Some ?p2)"
    by (simp add: search_vars_2_def search_pages_def py_index_def)
  have i1: "scrap_ids (playlist_list ?p1) = Inr (numbered_ids [1, 2, 3, 4, 5])"
    and i2: "scrap_ids (playlist_list ?p2) = Inr (numbered_ids [6, 7, 8, 9, 10])"
    using scrap_numbered by simp_all
  have n1: "numbered_ids [1, 2, 3, 4, 5] \<noteq> []" and n2: "numbered_ids [6, 7, 8, 9, 10] \<noteq> []"
    by (simp_all add: numbered_ids_def)
  have c1: "si_offset_left search_vars_1 + int (length (numbered_ids [1, 2, 3, 4, 5])) < 7"
    by (simp add: search_vars_1_def numbered_ids_def)
  have c2: "si_offset_left search_vars_2 < 7 \<and>
      7 \<le> si_offset_left search_vars_2 + int (length (numbered_ids [6, 7, 8, 9, 10]))"
    by (simp add: search_vars_2_def numbered_ids_def)
  from search_offset_bookkeeping [OF p1 i1 n1, of 7 echo_collab search_pages me False] c1
  have "search_iter_body echo_collab search_pages me 7 False 0 search_vars_1 =
         (let posted = post_catalog search_pages
                (LoadCatalogSection (sectionId (si_json_response search_vars_1))
                   (nextFrom (si_json_response search_vars_1))) (si_world search_vars_1)
          in Continue \<lparr>si_offset_left = si_offset_left search_vars_1 +
                         int (length (numbered_ids [1, 2, 3, 4, 5])),
                       si_json_response = fst posted, si_world = snd posted,
                       si_yielded = si_yielded search_vars_1\<rparr>)"
    by blast
  then have a: "search_iter_body echo_collab search_pages me 7 False 0 search_vars_1 =
      Continue search_vars_2"
    by (simp add: search_vars_1_def search_vars_2_def numbered_ids_def search_pages_def
        post_catalog_def post_def no_pages_def Let_def)
  from search_offset_bookkeeping [OF p2 i2 n2, of 7 echo_collab search_pages me False] c2
  have "search_iter_body echo_collab search_pages me 7 False 0 search_vars_2 =
         (let tail = drop (nat (7 - si_offset_left search_vars_2)) (numbered_ids [6, 7, 8, 9, 10]);
              y = yield_tracks echo_collab search_pages me tail (si_world search_vars_2)
          in case raised y of
               Some e \<Rightarrow>
                 Done \<lparr>yielded = si_yielded search_vars_2 @ yielded y, raised = Some e,
                       after = after y\<rparr>
             | None \<Rightarrow>
                 (let posted = post_catalog search_pages
                        (LoadCatalogSection (sectionId (si_json_response search_vars_2))
                           (nextFrom (si_json_response search_vars_2))) (after y)
                  in Continue \<lparr>si_offset_left = si_offset_left search_vars_2 + int (length tail),
                               si_json_response = fst posted, si_world = snd posted,
                               si_yielded = si_yielded search_vars_2 @ yielded y\<rparr>))"
    by blast
  then have b: "search_iter_body echo_collab search_pages me 7 False 0 search_vars_2 =
     Continue
       \<lparr>si_offset_left = 8, si_json_response = catalog_section search_pages 2,
        si_world = \<lparr>clock = 101,
                    sent = [(100, SectionSearch (PInt 7) ''q''),
                            (401 / 4, LoadCatalogSection (PStr ''s'') (PStr ''n1'')),
                            (201 / 2, ReloadAudio ''1_8_c_f,1_9_c_f,1_10_c_f''),
                            (403 / 4, LoadCatalogSection (PStr ''s'') (PStr ''n2''))],
                    n_reload = 1, n_page = 3\<rparr>,
        si_yielded = map (\<lambda>l. TrackItem
                \<lparr>track_id = PInt 5, track_owner_id = PInt (- 12), track_covers = [''c1'', ''c2''],
                 track_url = l, track_artist = ''Artist'', track_title = ''Title'',
                 track_duration = PInt 180\<rparr>) [''u8'', ''u9'', ''u10'']\<rparr>"
    by (simp add: search_vars_2_def numbered_ids_def search_pages_def run_defs
        del: yield_tracks_simps)
  from a b show ?thesis by (rule conjI)
qed

text \<open>
  Claim C6. The offset is meant to skip that many leading results, counted across pages.
  The documented example behaves so: with pages of 5 and 5 identities and offset 7 only
  identities 8, 9, 10 are resolved. With offset 3 the first page resolves its identities
  4 and 5, but the second page resolves only 7 to 10: identity 6 is skipped as well,
  because the running total was advanced by the 2 identities left after the slice
  (audio.py:401 and 414) and not by the 5 of the page.
\<close>

theorem search_offset_miscount_example:
  "map_option (\<lambda>r. map snd (sent (after r)))
     (search_iter echo_collab search_pages me ''q'' 3 False GLOBAL_AUDIOS start) =
     Some [SectionSearch (PInt 7) ''q'',
           ReloadAudio ''1_4_c_f,1_5_c_f'',
           LoadCatalogSection (PStr ''s'') (PStr ''n1''),
           ReloadAudio ''1_7_c_f,1_8_c_f,1_9_c_f,1_10_c_f'',
           LoadCatalogSection (PStr ''s'') (PStr ''n2'')] \<and>
   map_option (\<lambda>r. map snd (sent (after r)))
     (search_iter echo_collab search_pages me ''q'' 7 False GLOBAL_AUDIOS start) =
     Some [SectionSearch (PInt 7) ''q'',
           LoadCatalogSection (PStr ''s'') (PStr ''n1''),
           ReloadAudio ''1_8_c_f,1_9_c_f,1_10_c_f'',
           LoadCatalogSection (PStr ''s'') (PStr ''n2'')]"
  by (simp add: search_iter_def search_iter_body_def search_page_def page_ids_def
      search_pages_def run_defs)





section \<open>Termination of the pagination drivers\<close>

lemma n_page_scrap_tracks [simp]: "n_page (after (scrap_tracks c h ids u cv w)) = n_page w"
  by (simp add: scrap_tracks_def)

lemma get_iter_body_break:
  "gi_response s = Some r \<Longrightarrow> \<not> hasMore r \<Longrightarrow>
   get_iter_body c h self owner_id album_id access_hash raw offset_diff s =
     Done \<lparr>yielded = gi_yielded s, raised = None, after = gi_world s\<rparr>"
  by (simp add: get_iter_body_def)

lemma get_iter_body_Done:
  "get_iter_body c h self owner_id album_id access_hash raw offset_diff s = Done out \<Longrightarrow>
   n_page (after out) \<le> Suc (n_page (gi_world s))"
  by (auto simp: get_iter_body_def Let_def split: option.splits sum.splits if_splits)

lemma get_iter_body_Continue:
  assumes "get_iter_body c h self owner_id album_id access_hash raw offset_diff s = Continue s'"
  shows "n_page (gi_world s') = Suc (n_page (gi_world s)) \<and>
         (\<exists>r. load_section h (n_page (gi_world s)) = Some r \<and> gi_response s' = Some r \<and>
              (raw \<or> hasMore r \<and> scrap_ids (section_list r) \<noteq> Inr []))"
  using assms
  by (auto simp: get_iter_body_def Let_def split: option.splits sum.splits if_splits)

lemma get_iter_loop_ends:
  assumes "load_section h (n_page (gi_world s) + k) = Some r"
    and "\<not> hasMore r \<or> \<not> raw \<and> scrap_ids (section_list r) = Inr []"
  shows "\<exists>out. iterate (get_iter_body c h self owner_id album_id access_hash raw offset_diff) s =
           Some out \<and> n_page (after out) \<le> n_page (gi_world s) + Suc k"
  using assms
proof (induction k arbitrary: s)
  case 0
  let ?body = "get_iter_body c h self owner_id album_id access_hash raw offset_diff"
  show ?case
  proof (cases "?body s")
    case (Done out)
    with get_iter_body_Done [OF Done] show ?thesis by (simp add: iterate_Done)
  next
    case (Continue s')
    from get_iter_body_Continue [OF Continue] 0 have p: "n_page (gi_world s') = Suc (n_page (gi_world s))"
      and r: "gi_response s' = Some r" and "raw \<or> hasMore r \<and> scrap_ids (section_list r) \<noteq> Inr []"
      by auto
    with 0 have "\<not> hasMore r" by auto
    with r have "?body s' = Done \<lparr>yielded = gi_yielded s', raised = None, after = gi_world s'\<rparr>"
      by (rule get_iter_body_break)
    then have "iterate ?body s' = Some \<lparr>yielded = gi_yielded s', raised = None, after = gi_world s'\<rparr>"
      by (rule iterate_Done)
    with Continue p show ?thesis by (simp add: iterate_Continue)
  qed
next
  case (Suc k)
  let ?body = "get_iter_body c h self owner_id album_id access_hash raw offset_diff"
  show ?case
  proof (cases "?body s")
    case (Done out)
    with get_iter_body_Done [OF Done] show ?thesis by (simp add: iterate_Done)
  next
    case (Continue s')
    from get_iter_body_Continue [OF Continue] have p: "n_page (gi_world s') = Suc (n_page (gi_world s))"
      by simp
    with Suc.prems have "load_section h (n_page (gi_world s') + k) = Some r" by simp
    from Suc.IH [OF this Suc.prems(2)] obtain out where
      "iterate ?body s' = Some out" and "n_page (after out) \<le> n_page (gi_world s') + Suc k"
      by blast
    with Continue p show ?thesis by (simp add: iterate_Continue)
  qed
qed

lemma news_yield_n_page [simp]: "n_page (after (news_yield c h self offset ol ids w)) = n_page w"
  by (simp add: news_yield_def)

lemma search_page_n_page [simp]:
  "n_page (after (search_page c h self offset raw ol pl ids w)) = n_page w"
  by (simp add: search_page_def)

lemma news_body_Done:
  "get_news_iter_body c h self offset s = Done out \<Longrightarrow>
   n_page (after out) \<le> Suc (n_page (ni_world s))"
  by (auto simp: get_news_iter_body_def Let_def split: option.splits sum.splits if_splits prod.splits)

lemma news_body_Continue:
  assumes "get_news_iter_body c h self offset s = Continue s'"
  shows "n_page (ni_world s') = Suc (n_page (ni_world s)) \<and>
         scrap_ids (news_list (news_section h (n_page (ni_world s)))) \<noteq> Inr []"
  using assms
  by (auto simp: get_news_iter_body_def Let_def split: option.splits sum.splits if_splits prod.splits)

lemma news_loop_ends:
  assumes "scrap_ids (news_list (news_section h (n_page (ni_world s) + k))) = Inr []"
  shows "\<exists>out. iterate (get_news_iter_body c h self offset) s = Some out \<and>
           n_page (after out) \<le> n_page (ni_world s) + Suc k"
  using assms
proof (induction k arbitrary: s)
  case 0
  show ?case
  proof (cases "get_news_iter_body c h self offset s")
    case (Done out)
    with news_body_Done [OF Done] show ?thesis by (simp add: iterate_Done)
  next
    case (Continue s')
    with news_body_Continue [OF Continue] 0 show ?thesis by simp
  qed
next
  case (Suc k)
  show ?case
  proof (cases "get_news_iter_body c h self offset s")
    case (Done out)
    with news_body_Done [OF Done] show ?thesis by (simp add: iterate_Done)
  next
    case (Continue s')
    from news_body_Continue [OF Continue] have p: "n_page (ni_world s') = Suc (n_page (ni_world s))"
      by simp
    with Suc.prems have "scrap_ids (news_list (news_section h (n_page (ni_world s') + k))) = Inr []"
      by simp
    from Suc.IH [OF this] obtain out where
      "iterate (get_news_iter_body c h self offset) s' = Some out"
      and "n_page (after out) \<le> n_page (ni_world s') + Suc k" by blast
    with Continue p show ?thesis by (simp add: iterate_Continue)
  qed
qed

lemma search_body_Done:
  "search_iter_body c h self offset raw i s = Done out \<Longrightarrow>
   n_page (after out) \<le> n_page (si_world s)"
  by (auto simp: search_iter_body_def Let_def split: option.splits sum.splits if_splits)

lemma search_body_Continue:
  assumes "search_iter_body c h self offset raw i s = Continue s'"
  shows "n_page (si_world s') = Suc (n_page (si_world s)) \<and>
         si_json_response s' = catalog_section h (n_page (si_world s)) \<and>
         \<not> search_page_ends i (si_json_response s)"
  using assms
  by (auto simp: search_iter_body_def search_page_ends_def Let_def
      split: option.splits sum.splits if_splits)

lemma search_loop_ends:
  assumes "search_page_ends i
     (case k of 0 \<Rightarrow> si_json_response s | Suc j \<Rightarrow> catalog_section h (n_page (si_world s) + j))"
  shows "\<exists>out. iterate (search_iter_body c h self offset raw i) s = Some out \<and>
           n_page (after out) \<le> n_page (si_world s) + k"
  using assms
proof (induction k arbitrary: s)
  case 0
  show ?case
  proof (cases "search_iter_body c h self offset raw i s")
    case (Done out)
    with search_body_Done [OF Done] show ?thesis by (simp add: iterate_Done)
  next
    case (Continue s')
    with search_body_Continue [OF Continue] 0 show ?thesis by simp
  qed
next
  case (Suc k)
  show ?case
  proof (cases "search_iter_body c h self offset raw i s")
    case (Done out)
    with search_body_Done [OF Done] show ?thesis by (simp add: iterate_Done)
  next
    case (Continue s')
    from search_body_Continue [OF Continue]
    have p: "n_page (si_world s') = Suc (n_page (si_world s))"
      and j: "si_json_response s' = catalog_section h (n_page (si_world s))" by simp_all
    with Suc.prems have "search_page_ends i
       (case k of 0 \<Rightarrow> si_json_response s' | Suc j \<Rightarrow> catalog_section h (n_page (si_world s') + j))"
      by (cases k) simp_all
    from Suc.IH [OF this] obtain out where
      "iterate (search_iter_body c h self offset raw i) s' = Some out"
      and "n_page (after out) \<le> n_page (si_world s') + k" by blast
    with Continue p show ?thesis by (simp add: iterate_Continue)
  qed
qed

lemma iterate_diverges:
  assumes step: "\<And>s. J s \<Longrightarrow> \<exists>s'. body s = Continue s' \<and> J s'" and "J s"
  shows "iterate body s = None"
proof (rule ccontr)
  assume "iterate body s \<noteq> None"
  then obtain y where y: "iterate body s = Some y" by auto
  have "body = body \<longrightarrow> \<not> J s"
  proof (rule iterate.raw_induct [where P = "\<lambda>b s y. b = body \<longrightarrow> \<not> J s", OF _ y])
    fix it b t z
    assume ih: "\<And>s b y. it s b = Some y \<Longrightarrow> s = body \<longrightarrow> \<not> J b"
      and eq: "(case b t of Continue s' \<Rightarrow> it b s' | Done r \<Rightarrow> Some r) = Some z"
    show "b = body \<longrightarrow> \<not> J t"
    proof (intro impI notI)
      assume b: "b = body" and "J t"
      from step [OF this(2)] obtain s' where s': "body t = Continue s'" "J s'" by blast
      with eq b have "it body s' = Some z" by simp
      from ih [OF this] s'(2) show False by simp
    qed
  qed
  with assms(2) show False by simp
qed

text \<open>
  Claim C8, as the code has it. Each driver ends at the latest at the first page that ends
  it, having requested no page after that one: \<^verbatim>\<open>get_iter\<close> when a page reports no more
  pages or, outside raw mode, yields an empty identity list; \<^verbatim>\<open>search_iter\<close> when the
  selected playlist of a page is falsy or yields an empty identity list;
  \<^verbatim>\<open>get_news_iter\<close> when a page of its loop (a page after the first) yields an empty
  identity list. The generator then has yielded a finite sequence and has returned, or
  has raised on a response it could not handle. Pages are counted from the first page
  request of the call.
\<close>

theorem drivers_terminate:
  "(load_section h (n_page w + k) = Some r \<and>
    (\<not> hasMore r \<or> \<not> raw \<and> scrap_ids (section_list r) = Inr []) \<longrightarrow>
      (\<exists>out. get_iter c h self owner_id album_id access_hash raw w = Some out \<and>
             n_page (after out) \<le> n_page w + Suc k)) \<and>
   (search_page_ends (chosen_index search_options (catalog_section h (n_page w)))
      (catalog_section h (n_page w + k)) \<longrightarrow>
      (\<exists>out. search_iter c h self q offset raw search_options w = Some out \<and>
             n_page (after out) \<le> n_page w + Suc k)) \<and>
   (scrap_ids (news_list (news_section h (n_page w + k))) = Inr [] \<longrightarrow>
      (\<exists>out. get_news_iter c h self offset w = Some out \<and>
             n_page (after out) \<le> n_page w + Suc k))"
proof (intro conjI impI)
  assume a: "load_section h (n_page w + k) = Some r \<and>
    (\<not> hasMore r \<or> \<not> raw \<and> scrap_ids (section_list r) = Inr [])"
  let ?s = "\<lparr>gi_offset = 0, gi_response = None, gi_world = w, gi_yielded = []\<rparr>"
  from a have "load_section h (n_page (gi_world ?s) + k) = Some r"
    and "\<not> hasMore r \<or> \<not> raw \<and> scrap_ids (section_list r) = Inr []" by simp_all
  from get_iter_loop_ends [OF this]
  show "\<exists>out. get_iter c h self owner_id album_id access_hash raw w = Some out \<and>
             n_page (after out) \<le> n_page w + Suc k"
    by (simp add: get_iter_def)
next
  let ?j = "catalog_section h (n_page w)"
  let ?i = "chosen_index search_options ?j"
  assume a: "search_page_ends ?i (catalog_section h (n_page w + k))"
  let ?w1 = "snd (post_catalog h (SectionSearch (PInt (user_id self)) q) w)"
  let ?s = "\<lparr>si_offset_left = 0, si_json_response = ?j, si_world = ?w1, si_yielded = []\<rparr>"
  show "\<exists>out. search_iter c h self q offset raw search_options w = Some out \<and>
             n_page (after out) \<le> n_page w + Suc k"
  proof (cases "find_desired (option_value search_options) 0 (playlists ?j)")
    case (Inl e)
    then show ?thesis by (simp add: search_iter_def Let_def)
  next
    case (Inr found)
    then have i: "(case found of None \<Rightarrow> 0 | Some i \<Rightarrow> i) = ?i"
      by (simp add: chosen_index_def split: option.split)
    from a have "search_page_ends ?i
       (case k of 0 \<Rightarrow> si_json_response ?s | Suc j \<Rightarrow> catalog_section h (n_page (si_world ?s) + j))"
      by (cases k) simp_all
    from search_loop_ends [OF this, of c self offset raw] Inr i show ?thesis
      by (simp add: search_iter_def Let_def)
  qed
next
  assume a: "scrap_ids (news_list (news_section h (n_page w + k))) = Inr []"
  let ?w1 = "post h (AudioBlock ''new_songs'') w"
  show "\<exists>out. get_news_iter c h self offset w = Some out \<and>
             n_page (after out) \<le> n_page w + Suc k"
  proof (cases "scrap_ids (recoms_list (new_songs h))")
    case (Inl e)
    then show ?thesis by (simp add: get_news_iter_def Let_def)
  next
    case (Inr ids)
    let ?y = "news_yield c h self offset 0 ids ?w1"
    show ?thesis
    proof (cases "raised ?y")
      case (Some e)
      with Inr show ?thesis by (simp add: get_news_iter_def Let_def)
    next
      case None
      let ?s = "\<lparr>ni_offset_left = int (length ids),
                 ni_cursor = Some (recoms_sectionId (new_songs h), recoms_nextFrom (new_songs h)),
                 ni_world = after ?y, ni_yielded = yielded ?y\<rparr>"
      from a have "scrap_ids (news_list (news_section h (n_page (ni_world ?s) + k))) = Inr []"
        by simp
      from news_loop_ends [OF this, of c self offset] Inr None show ?thesis
        by (simp add: get_news_iter_def Let_def)
    qed
  qed
qed

theorem drivers_terminate_witness:
  "(\<exists>out. get_iter echo_collab two_pages me PNone PNone PNone False start = Some out \<and>
          n_page (after out) \<le> 2) \<and>
   (\<exists>out. search_iter echo_collab search_pages me ''q'' 7 False GLOBAL_AUDIOS start = Some out \<and>
          n_page (after out) \<le> 3) \<and>
   (\<exists>out. get_news_iter echo_collab news_pages me 0 start = Some out \<and>
          n_page (after out) \<le> 2)"
proof -
  have g: "load_section two_pages (n_page start + 1) = Some \<lparr>section_list = [], hasMore = False\<rparr> \<and>
      (\<not> hasMore \<lparr>section_list = [], hasMore = False\<rparr> \<or>
       \<not> False \<and> scrap_ids (section_list \<lparr>section_list = [], hasMore = False\<rparr>) = Inr [])"
    by (simp add: two_pages_def start_def)
  have s: "search_page_ends (chosen_index GLOBAL_AUDIOS (catalog_section search_pages (n_page start)))
      (catalog_section search_pages (n_page start + 2))"
    by (simp add: search_page_ends_def chosen_index_def search_pages_def start_def py_index_def
        numbered_def record_with_def ebind_def AT_defs)
  have n: "scrap_ids (news_list (news_section news_pages (n_page start + 1))) = Inr []"
    by (simp add: news_pages_def start_def scrap_ids_def)
  have p: "n_page start = 0" by (simp add: start_def)
  from drivers_terminate [where h = two_pages and w = start and k = 1 and raw = False
      and r = "\<lparr>section_list = [], hasMore = False\<rparr>" and c = echo_collab and self = me
      and owner_id = PNone and album_id = PNone and access_hash = PNone] g
  have 1: "\<exists>out. get_iter echo_collab two_pages me PNone PNone PNone False start = Some out \<and>
          n_page (after out) \<le> n_page start + Suc 1" by blast
  from drivers_terminate [where h = search_pages and w = start and k = 2 and raw = False
      and search_options = GLOBAL_AUDIOS and c = echo_collab and self = me and q = "''q''"
      and offset = 7] s
  have 2: "\<exists>out. search_iter echo_collab search_pages me ''q'' 7 False GLOBAL_AUDIOS start = Some out \<and>
          n_page (after out) \<le> n_page start + Suc 2" by blast
  from drivers_terminate [where h = news_pages and w = start and k = 1 and c = echo_collab
      and self = me and offset = 0] n
  have 3: "\<exists>out. get_news_iter echo_collab news_pages me 0 start = Some out \<and>
          n_page (after out) \<le> n_page start + Suc 1" by blast
  from 1 2 3 show ?thesis by (simp add: p numeral_2_eq_2 numeral_3_eq_3)
qed

text \<open>
  In raw mode \<^verbatim>\<open>get_iter\<close> extracts no identities: on pages that all report more pages
  it never ends, although every page has an empty list.
\<close>

theorem raw_listing_runs_forever_counterexample:
  "load_section endless_pages 0 = Some \<lparr>section_list = [], hasMore = True\<rparr> \<and>
   scrap_ids [] = Inr [] \<and>
   get_iter echo_collab endless_pages me PNone PNone PNone True start = None"
proof -
  let ?body = "get_iter_body echo_collab endless_pages me (PInt (user_id me)) PNone PNone True
      TRACKS_PER_USER_PAGE"
  let ?J = "\<lambda>s. gi_response s = None \<or> gi_response s = Some \<lparr>section_list = [], hasMore = True\<rparr>"
  have step: "\<exists>s'. ?body s = Continue s' \<and> ?J s'" if "?J s" for s
    using that
    by (auto simp: get_iter_body_def endless_pages_def yield_raw_def post_load_section_def Let_def)
  have "iterate ?body \<lparr>gi_offset = 0, gi_response = None, gi_world = start, gi_yielded = []\<rparr> = None"
    by (rule iterate_diverges [where J = ?J]) (use step in simp_all)
  then show ?thesis
    by (simp add: get_iter_def endless_pages_def scrap_ids_def)
qed


end
